theory Spec2Isabelle
  imports Main "HOL-Library.Code_Target_Nat"
begin

section \<open>Custom columns and their mirrored workflow statuses\<close>

text \<open>
  A shallow embedding of \<^verbatim>\<open>src/features/custom-columns/api/route.ts\<close>: the POST, PATCH and
  DELETE handlers of the custom-column route, run against an explicit model of the document
  store they call (the GET handler only lists columns and takes no part in what follows).
  Every \<^verbatim>\<open>await databases.xxx(...)\<close> of the source is one store call of the model: the call
  is recorded in a trace, the environment may fail it, in which case the store is left as it
  was, and otherwise it reads or changes the collections. A \<^verbatim>\<open>throw\<close> is the \<open>Inl\<close> branch
  of a sum; a \<^verbatim>\<open>try { ... } catch { ... }\<close> is a function that drops that branch.
\<close>

subsection \<open>Documents\<close>

text \<open>
  Names and keys are JavaScript strings: sequences of UTF-16 code units, numbers below
  \<open>65536\<close>. Identifiers, icons, colors and status types are only copied, compared and tested
  for emptiness; they are HOL strings.
\<close>

type_synonym code_unit = nat

type_synonym js_string = "code_unit list"

type_synonym doc_id = string

text \<open>
  A document of the custom-column collection. \<open>projectId\<close>, \<open>workflowId\<close>, \<open>icon\<close> and
  \<open>color\<close> may be absent (\<open>None\<close>). Positions are integers held in JavaScript numbers.
\<close>

record custom_column =
  cc_id :: doc_id
  cc_name :: js_string
  cc_workspaceId :: string
  cc_projectId :: "string option"
  cc_workflowId :: "string option"
  cc_icon :: "string option"
  cc_color :: "string option"
  cc_position :: int

record workflow_status =
  ws_id :: doc_id
  ws_workflowId :: string
  ws_name :: js_string
  ws_key :: js_string
  ws_icon :: string
  ws_color :: string
  ws_statusType :: string
  ws_description :: "string option"
  ws_position :: int
  ws_positionX :: int
  ws_positionY :: int
  ws_isInitial :: bool
  ws_isFinal :: bool

record workflow_transition =
  wt_id :: doc_id
  wt_workflowId :: string
  wt_fromStatusId :: doc_id
  wt_toStatusId :: doc_id

record project =
  p_workflowId :: "string option"

text \<open>
  JavaScript truthiness of an optional string, as in \<^verbatim>\<open>if (projectId)\<close>: \<^verbatim>\<open>undefined\<close>,
  \<^verbatim>\<open>null\<close> and the empty string are falsy.
\<close>

fun truthy :: "string option \<Rightarrow> bool" where
  "truthy None = False"
| "truthy (Some s) = (s \<noteq> [])"

text \<open>\<^verbatim>\<open>x || d\<close> on an optional string.\<close>

fun or_default :: "string option \<Rightarrow> string \<Rightarrow> string" where
  "or_default None d = d"
| "or_default (Some s) d = (if s = [] then d else s)"

subsection \<open>The key normalizer\<close>

text \<open>
  \<^verbatim>\<open>name.toLowerCase().replace(/[\s_-]+/g, "_").toUpperCase()\<close>. The two case conversions of
  the runtime follow the Unicode character database, which is no part of the repository: they
  are parameters of the model, functions from strings to strings (a conversion may change the
  length of a string and may look at the neighbours of a character).
\<close>

record js_strings =
  toLowerCase :: "js_string \<Rightarrow> js_string"
  toUpperCase :: "js_string \<Rightarrow> js_string"

text \<open>
  The class \<^verbatim>\<open>[\s_-]\<close> of a regular expression without the \<^verbatim>\<open>u\<close> flag, on code units:
  the white space and line terminators of ECMAScript (tab, line feed, vertical tab, form feed,
  carriage return, space, U+00A0, U+1680, U+2000 to U+200A, U+2028, U+2029, U+202F, U+205F,
  U+3000, U+FEFF), the hyphen and the underscore.
\<close>

definition is_separator :: "code_unit \<Rightarrow> bool" where
  "is_separator c =
     (c \<in> {9, 10, 11, 12, 13, 32, 160, 5760, 8232, 8233, 8239, 8287, 12288, 65279, 45, 95} \<or>
      (8192 \<le> c \<and> c \<le> 8202))"

text \<open>The global replace: every maximal run of separators becomes one underscore.\<close>

function replace_separator_runs :: "js_string \<Rightarrow> js_string" where
  "replace_separator_runs [] = []"
| "replace_separator_runs (c # cs) =
     (if is_separator c then 95 # replace_separator_runs (dropWhile is_separator cs)
      else c # replace_separator_runs cs)"
  by pat_completeness auto
termination
  by (relation "measure length") (auto simp: length_dropWhile_le less_Suc_eq_le)

definition normalizedKey :: "js_strings \<Rightarrow> js_string \<Rightarrow> js_string" where
  "normalizedKey js name =
     toUpperCase js (replace_separator_runs (toLowerCase js name))"

subsection \<open>JavaScript numbers\<close>

text \<open>
  Positions are integers, and the source adds and multiplies them as JavaScript numbers:
  the exact result is rounded to the nearest number with a significand of 53 bits, a tie to
  the one whose significand is even. (The exponent range is taken to be unbounded: a result
  of magnitude \<open>2 ^ 1024\<close> or more, which the runtime turns into \<^verbatim>\<open>Infinity\<close>, is out of the
  model's reach.) The operands are JavaScript numbers too: an integer that the store holds
  and JavaScript cannot is rounded when the document is read, so an operation rounds its
  operands before it rounds its result.
\<close>

fun bit_length :: "nat \<Rightarrow> nat" where
  "bit_length n = (if n = 0 then 0 else Suc (bit_length (n div 2)))"

definition to_double :: "int \<Rightarrow> int" where
  "to_double n =
     (let m = nat \<bar>n\<bar>;
          k = bit_length m - 53;
          q = m div 2 ^ k;
          r = m mod 2 ^ k;
          q' = (if 2 ^ k < 2 * r \<or> (2 * r = 2 ^ k \<and> odd q) then q + 1 else q)
      in sgn n * int (q' * 2 ^ k))"

definition js_add :: "int \<Rightarrow> int \<Rightarrow> int" where
  "js_add a b = to_double (to_double a + to_double b)"

definition js_mul :: "int \<Rightarrow> int \<Rightarrow> int" where
  "js_mul a b = to_double (to_double a * to_double b)"

subsection \<open>The document store\<close>

datatype collection = Columns | Projects | Statuses | Transitions

datatype store_op =
    OpList collection
  | OpGet collection doc_id
  | OpCreate collection doc_id
  | OpUpdate collection doc_id
  | OpDelete collection doc_id

fun op_collection :: "store_op \<Rightarrow> collection" where
  "op_collection (OpList k) = k"
| "op_collection (OpGet k i) = k"
| "op_collection (OpCreate k i) = k"
| "op_collection (OpUpdate k i) = k"
| "op_collection (OpDelete k i) = k"

datatype store_error = NotFound | Unavailable

text \<open>
  The world a request runs in: the four collections, the environment's decision for every
  store call (\<open>fault w n op\<close>: whether the call \<open>op\<close>, issued as the \<open>n\<close>-th call, is failed
  and with which error), the trace of the calls issued so far, and what \<^verbatim>\<open>console.error\<close>
  has been given. Projects are only looked up by id, so they are a map; the other collections
  are lists, in the order the store lists them.
\<close>

record world =
  columns :: "custom_column list"
  projects :: "doc_id \<rightharpoonup> project"
  statuses :: "workflow_status list"
  transitions :: "workflow_transition list"
  fault :: "nat \<Rightarrow> store_op \<Rightarrow> store_error option"
  trace :: "store_op list"
  errlog :: "store_error list"

definition no_faults :: "nat \<Rightarrow> store_op \<Rightarrow> store_error option" where
  "no_faults n op = None"

text \<open>Issuing a store call: it is recorded, and the environment may fail it.\<close>

definition attempt :: "store_op \<Rightarrow> world \<Rightarrow> store_error option \<times> world" where
  "attempt op w = (fault w (length (trace w)) op, w\<lparr>trace := trace w @ [op]\<rparr>)"

text \<open>
  Modelled from the spec: the store client (\<^verbatim>\<open>node-appwrite\<close>) is not part of the repository;
  section 4.3 of the specification gives its interface. \<open>list(filters)\<close> returns the documents
  that satisfy every filter, as an ordered sequence; \<^verbatim>\<open>Query.orderDesc("position")\<close> sorts
  them by descending position and \<^verbatim>\<open>Query.limit(n)\<close> keeps the first \<open>n\<close>; a listing with
  no limit returns every match, and its \<^verbatim>\<open>total\<close> is their number. \<open>get\<close> and \<open>delete\<close>
  answer \<open>NotFound\<close> for an id that is absent.
\<close>

definition run_query ::
  "('d \<Rightarrow> bool) list \<Rightarrow> ('d \<Rightarrow> int) option \<Rightarrow> nat option \<Rightarrow> 'd list \<Rightarrow> 'd list" where
  "run_query filters orderDesc limit docs =
     (let matched = filter (\<lambda>d. list_all (\<lambda>q. q d) filters) docs;
          ordered = (case orderDesc of None \<Rightarrow> matched
                     | Some f \<Rightarrow> sort_key (\<lambda>d. - f d) matched)
      in case limit of None \<Rightarrow> ordered | Some n \<Rightarrow> take n ordered)"

definition list_columns ::
  "(custom_column \<Rightarrow> bool) list \<Rightarrow> (custom_column \<Rightarrow> int) option \<Rightarrow> nat option \<Rightarrow> world
     \<Rightarrow> (store_error + custom_column list) \<times> world" where
  "list_columns filters orderDesc limit w =
     (case attempt (OpList Columns) w of
        (Some e, w') \<Rightarrow> (Inl e, w')
      | (None, w') \<Rightarrow> (Inr (run_query filters orderDesc limit (columns w')), w'))"

definition list_statuses ::
  "(workflow_status \<Rightarrow> bool) list \<Rightarrow> (workflow_status \<Rightarrow> int) option \<Rightarrow> nat option \<Rightarrow> world
     \<Rightarrow> (store_error + workflow_status list) \<times> world" where
  "list_statuses filters orderDesc limit w =
     (case attempt (OpList Statuses) w of
        (Some e, w') \<Rightarrow> (Inl e, w')
      | (None, w') \<Rightarrow> (Inr (run_query filters orderDesc limit (statuses w')), w'))"

definition list_transitions ::
  "(workflow_transition \<Rightarrow> bool) list \<Rightarrow> world
     \<Rightarrow> (store_error + workflow_transition list) \<times> world" where
  "list_transitions filters w =
     (case attempt (OpList Transitions) w of
        (Some e, w') \<Rightarrow> (Inl e, w')
      | (None, w') \<Rightarrow> (Inr (run_query filters None None (transitions w')), w'))"

definition get_column :: "doc_id \<Rightarrow> world \<Rightarrow> (store_error + custom_column) \<times> world" where
  "get_column i w =
     (case attempt (OpGet Columns i) w of
        (Some e, w') \<Rightarrow> (Inl e, w')
      | (None, w') \<Rightarrow>
          (case find (\<lambda>c. cc_id c = i) (columns w') of
             None \<Rightarrow> (Inl NotFound, w')
           | Some c \<Rightarrow> (Inr c, w')))"

definition get_project :: "doc_id \<Rightarrow> world \<Rightarrow> (store_error + project) \<times> world" where
  "get_project i w =
     (case attempt (OpGet Projects i) w of
        (Some e, w') \<Rightarrow> (Inl e, w')
      | (None, w') \<Rightarrow>
          (case projects w' i of
             None \<Rightarrow> (Inl NotFound, w')
           | Some p \<Rightarrow> (Inr p, w')))"

text \<open>
  \<^verbatim>\<open>createDocument(..., ID.unique(), data)\<close>: the id the store generates is the \<open>id\<close> field
  of the document handed to the model.
\<close>

definition create_column ::
  "custom_column \<Rightarrow> world \<Rightarrow> (store_error + custom_column) \<times> world" where
  "create_column doc w =
     (case attempt (OpCreate Columns (cc_id doc)) w of
        (Some e, w') \<Rightarrow> (Inl e, w')
      | (None, w') \<Rightarrow> (Inr doc, w'\<lparr>columns := columns w' @ [doc]\<rparr>))"

definition create_status ::
  "workflow_status \<Rightarrow> world \<Rightarrow> (store_error + workflow_status) \<times> world" where
  "create_status doc w =
     (case attempt (OpCreate Statuses (ws_id doc)) w of
        (Some e, w') \<Rightarrow> (Inl e, w')
      | (None, w') \<Rightarrow> (Inr doc, w'\<lparr>statuses := statuses w' @ [doc]\<rparr>))"

definition delete_column :: "doc_id \<Rightarrow> world \<Rightarrow> (store_error + unit) \<times> world" where
  "delete_column i w =
     (case attempt (OpDelete Columns i) w of
        (Some e, w') \<Rightarrow> (Inl e, w')
      | (None, w') \<Rightarrow>
          (if list_ex (\<lambda>c. cc_id c = i) (columns w')
           then (Inr (), w'\<lparr>columns := filter (\<lambda>c. cc_id c \<noteq> i) (columns w')\<rparr>)
           else (Inl NotFound, w')))"

definition delete_status :: "doc_id \<Rightarrow> world \<Rightarrow> (store_error + unit) \<times> world" where
  "delete_status i w =
     (case attempt (OpDelete Statuses i) w of
        (Some e, w') \<Rightarrow> (Inl e, w')
      | (None, w') \<Rightarrow>
          (if list_ex (\<lambda>s. ws_id s = i) (statuses w')
           then (Inr (), w'\<lparr>statuses := filter (\<lambda>s. ws_id s \<noteq> i) (statuses w')\<rparr>)
           else (Inl NotFound, w')))"

definition delete_transition :: "doc_id \<Rightarrow> world \<Rightarrow> (store_error + unit) \<times> world" where
  "delete_transition i w =
     (case attempt (OpDelete Transitions i) w of
        (Some e, w') \<Rightarrow> (Inl e, w')
      | (None, w') \<Rightarrow>
          (if list_ex (\<lambda>t. wt_id t = i) (transitions w')
           then (Inr (), w'\<lparr>transitions := filter (\<lambda>t. wt_id t \<noteq> i) (transitions w')\<rparr>)
           else (Inl NotFound, w')))"

text \<open>
  Modelled from the spec: \<^verbatim>\<open>updateCustomColumnSchema\<close> (\<^verbatim>\<open>../schemas\<close>) is not part of the
  source; the specification calls the request a partial update of a column, whose attributes
  are name, icon, color and position. A field that is \<open>None\<close> is left as it is.
\<close>

record column_updates =
  u_name :: "js_string option"
  u_icon :: "string option"
  u_color :: "string option"
  u_position :: "int option"

definition apply_updates :: "column_updates \<Rightarrow> custom_column \<Rightarrow> custom_column" where
  "apply_updates u c =
     c\<lparr>cc_name := (case u_name u of None \<Rightarrow> cc_name c | Some n \<Rightarrow> n),
       cc_icon := (case u_icon u of None \<Rightarrow> cc_icon c | Some i \<Rightarrow> Some i),
       cc_color := (case u_color u of None \<Rightarrow> cc_color c | Some k \<Rightarrow> Some k),
       cc_position := (case u_position u of None \<Rightarrow> cc_position c | Some p \<Rightarrow> p)\<rparr>"

definition update_column ::
  "doc_id \<Rightarrow> column_updates \<Rightarrow> world \<Rightarrow> (store_error + custom_column) \<times> world" where
  "update_column i u w =
     (case attempt (OpUpdate Columns i) w of
        (Some e, w') \<Rightarrow> (Inl e, w')
      | (None, w') \<Rightarrow>
          (case find (\<lambda>c. cc_id c = i) (columns w') of
             None \<Rightarrow> (Inl NotFound, w')
           | Some c \<Rightarrow>
               (Inr (apply_updates u c),
                w'\<lparr>columns := map (\<lambda>d. if cc_id d = i then apply_updates u d else d)
                                  (columns w')\<rparr>)))"

text \<open>
  \<^verbatim>\<open>try { body } catch (syncError) { console.error(..., syncError) }\<close>: the error is logged
  and dropped; the world is what the body left.
\<close>

fun catch_and_log :: "(store_error + unit) \<times> world \<Rightarrow> world" where
  "catch_and_log (Inl e, w) = w\<lparr>errlog := errlog w @ [e]\<rparr>"
| "catch_and_log (Inr u, w) = w"

text \<open>\<^verbatim>\<open>try { await databases.deleteDocument(...) } catch { }\<close>: the outcome is dropped.\<close>

definition catch_ignore :: "(store_error + unit) \<times> world \<Rightarrow> world" where
  "catch_ignore r = snd r"

subsection \<open>POST /\<close>

record create_request =
  rq_name :: js_string
  rq_workspaceId :: string
  rq_projectId :: "string option"
  rq_workflowId :: "string option"
  rq_icon :: "string option"
  rq_color :: "string option"
  rq_position :: "int option"

text \<open>Lines 58 to 64: the filters of the scope the new column belongs to.\<close>

definition filterQueries :: "create_request \<Rightarrow> (custom_column \<Rightarrow> bool) list" where
  "filterQueries rq =
     [\<lambda>c. cc_workspaceId c = rq_workspaceId rq]
     @ (if truthy (rq_projectId rq) then [\<lambda>c. cc_projectId c = rq_projectId rq] else [])
     @ (if truthy (rq_workflowId rq) then [\<lambda>c. cc_workflowId c = rq_workflowId rq] else [])"

text \<open>Lines 67 to 82: the position of the new column.\<close>

definition finalPosition :: "create_request \<Rightarrow> world \<Rightarrow> (store_error + int) \<times> world" where
  "finalPosition rq w =
     (case rq_position rq of
        Some p \<Rightarrow> (Inr p, w)
      | None \<Rightarrow>
          (case list_columns (filterQueries rq) (Some cc_position) (Some 1) w of
             (Inl e, w') \<Rightarrow> (Inl e, w')
           | (Inr existingColumns, w') \<Rightarrow>
               (Inr (case existingColumns of [] \<Rightarrow> 1000 | d # ds \<Rightarrow> js_add (cc_position d) 1000),
                w')))"

text \<open>Lines 84 to 98: the data of the new column document.\<close>

definition documentData :: "create_request \<Rightarrow> doc_id \<Rightarrow> int \<Rightarrow> custom_column" where
  "documentData rq new_id pos =
     \<lparr>cc_id = new_id, cc_name = rq_name rq, cc_workspaceId = rq_workspaceId rq,
      cc_projectId = (if truthy (rq_projectId rq) then rq_projectId rq else None),
      cc_workflowId = (if truthy (rq_workflowId rq) then rq_workflowId rq else None),
      cc_icon = rq_icon rq, cc_color = rq_color rq, cc_position = pos\<rparr>"

text \<open>Lines 152 to 165: the data of the status that mirrors the column.\<close>

definition new_status ::
  "js_strings \<Rightarrow> doc_id \<Rightarrow> string \<Rightarrow> js_string \<Rightarrow> string option \<Rightarrow> string option \<Rightarrow> int
     \<Rightarrow> workflow_status" where
  "new_status js new_id wfid name icon color statusPosition =
     \<lparr>ws_id = new_id, ws_workflowId = wfid, ws_name = name, ws_key = normalizedKey js name,
      ws_icon = or_default icon ''Circle'', ws_color = or_default color ''#6B7280'',
      ws_statusType = ''OPEN'', ws_description = None, ws_position = statusPosition,
      ws_positionX = js_add 100 (js_mul statusPosition 180), ws_positionY = 100,
      ws_isInitial = False, ws_isFinal = False\<rparr>"

text \<open>Lines 118 to 130 and 237 to 248: the statuses of a workflow that match a name.\<close>

definition status_match_queries ::
  "js_strings \<Rightarrow> string \<Rightarrow> js_string \<Rightarrow> (workflow_status \<Rightarrow> bool) list" where
  "status_match_queries js wfid name =
     [\<lambda>s. ws_workflowId s = wfid, \<lambda>s. ws_name s = name \<or> ws_key s = normalizedKey js name]"

text \<open>Lines 110 to 168: the body of the \<^verbatim>\<open>try\<close> of the create-time synchronisation.\<close>

definition sync_create ::
  "js_strings \<Rightarrow> create_request \<Rightarrow> doc_id \<Rightarrow> doc_id \<Rightarrow> world \<Rightarrow> (store_error + unit) \<times> world" where
  "sync_create js rq projectId status_id w =
     (case get_project projectId w of
        (Inl e, w1) \<Rightarrow> (Inl e, w1)
      | (Inr project, w1) \<Rightarrow>
          (case p_workflowId project of
             None \<Rightarrow> (Inr (), w1)
           | Some wfid \<Rightarrow>
               if wfid = [] then (Inr (), w1)
               else
                 (case list_statuses (status_match_queries js wfid (rq_name rq)) None None w1 of
                    (Inl e, w2) \<Rightarrow> (Inl e, w2)
                  | (Inr existingStatuses, w2) \<Rightarrow>
                      if length existingStatuses = 0 then
                        (case list_statuses [\<lambda>s. ws_workflowId s = wfid]
                                (Some ws_position) (Some 1) w2 of
                           (Inl e, w3) \<Rightarrow> (Inl e, w3)
                         | (Inr workflowStatuses, w3) \<Rightarrow>
                             (let statusPosition =
                                    (case workflowStatuses of [] \<Rightarrow> 0
                                     | d # ds \<Rightarrow> js_add (ws_position d) 1)
                              in case create_status
                                        (new_status js status_id wfid (rq_name rq) (rq_icon rq)
                                           (rq_color rq) statusPosition) w3 of
                                   (Inl e, w4) \<Rightarrow> (Inl e, w4)
                                 | (Inr created, w4) \<Rightarrow> (Inr (), w4)))
                      else (Inr (), w2))))"

text \<open>
  The handler. \<open>column_id\<close> and \<open>status_id\<close> are what the two \<^verbatim>\<open>ID.unique()\<close> of the
  source yield. The result is the response: \<open>Inr\<close> the created column, or \<open>Inl\<close> the error
  that left the handler.
\<close>

definition post_handler ::
  "js_strings \<Rightarrow> create_request \<Rightarrow> doc_id \<Rightarrow> doc_id \<Rightarrow> world \<Rightarrow> (store_error + custom_column) \<times> world" where
  "post_handler js rq column_id status_id w =
     (case finalPosition rq w of
        (Inl e, w1) \<Rightarrow> (Inl e, w1)
      | (Inr pos, w1) \<Rightarrow>
          (case create_column (documentData rq column_id pos) w1 of
             (Inl e, w2) \<Rightarrow> (Inl e, w2)
           | (Inr customColumn, w2) \<Rightarrow>
               (case rq_projectId rq of
                  Some projectId \<Rightarrow>
                    if projectId \<noteq> [] \<and> \<not> truthy (rq_workflowId rq)
                    then (Inr customColumn,
                          catch_and_log (sync_create js rq projectId status_id w2))
                    else (Inr customColumn, w2)
                | None \<Rightarrow> (Inr customColumn, w2))))"

subsection \<open>PATCH /:customColumnId\<close>

definition patch_handler ::
  "doc_id \<Rightarrow> column_updates \<Rightarrow> world \<Rightarrow> (store_error + custom_column) \<times> world" where
  "patch_handler customColumnId updates w = update_column customColumnId updates w"

subsection \<open>DELETE /:customColumnId\<close>

text \<open>Lines 265 to 275: the inner loop over the transitions of one status.\<close>

fun delete_transitions :: "workflow_transition list \<Rightarrow> world \<Rightarrow> world" where
  "delete_transitions [] w = w"
| "delete_transitions (t # ts) w =
     delete_transitions ts (catch_ignore (delete_transition (wt_id t) w))"

text \<open>Lines 251 to 287: the loop over the matching statuses.\<close>

fun delete_statuses :: "string \<Rightarrow> workflow_status list \<Rightarrow> world \<Rightarrow> (store_error + unit) \<times> world"
  where
  "delete_statuses wfid [] w = (Inr (), w)"
| "delete_statuses wfid (status # rest) w =
     (case list_transitions
             [\<lambda>t. wt_workflowId t = wfid,
              \<lambda>t. wt_fromStatusId t = ws_id status \<or> wt_toStatusId t = ws_id status] w of
        (Inl e, w1) \<Rightarrow> (Inl e, w1)
      | (Inr relatedTransitions, w1) \<Rightarrow>
          delete_statuses wfid rest
            (catch_ignore (delete_status (ws_id status)
               (delete_transitions relatedTransitions w1))))"

text \<open>Lines 228 to 288: the body of the \<^verbatim>\<open>try\<close> of the delete-time clean-up.\<close>

definition sync_delete :: "js_strings \<Rightarrow> js_string \<Rightarrow> doc_id \<Rightarrow> world \<Rightarrow> (store_error + unit) \<times> world" where
  "sync_delete js columnName columnProjectId w =
     (case get_project columnProjectId w of
        (Inl e, w1) \<Rightarrow> (Inl e, w1)
      | (Inr project, w1) \<Rightarrow>
          (case p_workflowId project of
             None \<Rightarrow> (Inr (), w1)
           | Some wfid \<Rightarrow>
               if wfid = [] then (Inr (), w1)
               else
                 (case list_statuses (status_match_queries js wfid columnName) None None w1 of
                    (Inl e, w2) \<Rightarrow> (Inl e, w2)
                  | (Inr matchingStatuses, w2) \<Rightarrow> delete_statuses wfid matchingStatuses w2)))"

text \<open>
  Lines 203 to 216: the column is read before it is deleted; when the read fails, the name
  and the project stay \<^verbatim>\<open>null\<close>.
\<close>

definition read_before_delete ::
  "doc_id \<Rightarrow> world \<Rightarrow> (js_string option \<times> string option) \<times> world" where
  "read_before_delete i w =
     (case get_column i w of
        (Inl e, w1) \<Rightarrow> ((None, None), w1)
      | (Inr customColumn, w1) \<Rightarrow> ((Some (cc_name customColumn), cc_projectId customColumn), w1))"

text \<open>The handler: \<open>Inr\<close> the id that is acknowledged, or \<open>Inl\<close> the error that left it.\<close>

definition delete_handler :: "js_strings \<Rightarrow> doc_id \<Rightarrow> world \<Rightarrow> (store_error + doc_id) \<times> world" where
  "delete_handler js customColumnId w =
     (case read_before_delete customColumnId w of
        ((columnName, columnProjectId), w1) \<Rightarrow>
          (case delete_column customColumnId w1 of
             (Inl e, w2) \<Rightarrow> (Inl e, w2)
           | (Inr u, w2) \<Rightarrow>
               (case (columnName, columnProjectId) of
                  (Some name, Some projectId) \<Rightarrow>
                    if name \<noteq> [] \<and> projectId \<noteq> []
                    then (Inr customColumnId, catch_and_log (sync_delete js name projectId w2))
                    else (Inr customColumnId, w2)
                | _ \<Rightarrow> (Inr customColumnId, w2))))"

subsection \<open>Notions the properties are stated with\<close>

text \<open>A transition of workflow \<open>wfid\<close> that has the status \<open>sid\<close> as an endpoint.\<close>

definition incident :: "string \<Rightarrow> doc_id \<Rightarrow> workflow_transition \<Rightarrow> bool" where
  "incident wfid sid t =
     (wt_workflowId t = wfid \<and> (wt_fromStatusId t = sid \<or> wt_toStatusId t = sid))"

text \<open>
  A status of workflow \<open>wfid\<close> that a column name matches: its name is the column's, or its
  key is the column's name lowercased, with every run of separators replaced by one
  underscore, then uppercased.
\<close>

definition matches :: "js_strings \<Rightarrow> string \<Rightarrow> js_string \<Rightarrow> workflow_status \<Rightarrow> bool" where
  "matches js wfid name s =
     (ws_workflowId s = wfid \<and>
      (ws_name s = name \<or>
       ws_key s = toUpperCase js (replace_separator_runs (toLowerCase js name))))"

text \<open>The store calls issued between two worlds of one run.\<close>

definition new_calls :: "world \<Rightarrow> world \<Rightarrow> store_op list" where
  "new_calls w w' = drop (length (trace w)) (trace w')"

text \<open>
  One round of the loop over the matching statuses, when its listing is not failed: the
  transitions of the status are listed and deleted, then the status is.
\<close>

definition status_round :: "string \<Rightarrow> workflow_status \<Rightarrow> world \<Rightarrow> world" where
  "status_round wfid s w =
     catch_ignore (delete_status (ws_id s)
       (delete_transitions (filter (incident wfid (ws_id s)) (transitions w))
          (w\<lparr>trace := trace w @ [OpList Transitions]\<rparr>)))"

text \<open>
  The scope of a create request: the workspace, and the project and the workflow when the
  request supplies them.
\<close>

definition in_scope :: "create_request \<Rightarrow> custom_column \<Rightarrow> bool" where
  "in_scope rq c =
     (cc_workspaceId c = rq_workspaceId rq \<and>
      (truthy (rq_projectId rq) \<longrightarrow> cc_projectId c = rq_projectId rq) \<and>
      (truthy (rq_workflowId rq) \<longrightarrow> cc_workflowId c = rq_workflowId rq))"

text \<open>The next position after the positions \<open>ps\<close> in use: \<open>first\<close> when there is none.\<close>

definition next_position :: "int \<Rightarrow> int \<Rightarrow> int set \<Rightarrow> int" where
  "next_position first stride ps = (if ps = {} then first else Max ps + stride)"

text \<open>The world after the column has been written (lines 58 to 105 of the source).\<close>

definition column_write :: "create_request \<Rightarrow> doc_id \<Rightarrow> world \<Rightarrow> world" where
  "column_write rq cid w =
     (case finalPosition rq w of
        (Inl e, w1) \<Rightarrow> w1
      | (Inr pos, w1) \<Rightarrow> snd (create_column (documentData rq cid pos) w1))"

text \<open>The world after the column has been read and deleted (lines 203 to 223).\<close>

definition column_removal :: "doc_id \<Rightarrow> world \<Rightarrow> world" where
  "column_removal i w = snd (delete_column i (snd (read_before_delete i w)))"

text \<open>
  The world in which the loop over the matching statuses starts: the project has been looked
  up and the statuses have been listed.
\<close>

definition cascade_start :: "doc_id \<Rightarrow> world \<Rightarrow> world" where
  "cascade_start p w = w\<lparr>trace := trace w @ [OpGet Projects p, OpList Statuses]\<rparr>"

text \<open>An integer that a JavaScript number holds exactly.\<close>

definition representable :: "int \<Rightarrow> bool" where
  "representable n = (to_double n = n)"

text \<open>
  What the source computes for the next position: \<open>first\<close> when no position is in use, else
  the JavaScript sum of the largest one and \<open>stride\<close>.
\<close>

definition js_next :: "int \<Rightarrow> int \<Rightarrow> int set \<Rightarrow> int" where
  "js_next first stride ps = (if ps = {} then first else js_add (Max ps) stride)"


subsection \<open>An example store\<close>

text \<open>
  The examples use names of ASCII characters, on which the case conversions of the runtime
  act as follows.
\<close>

definition ascii_lower_unit :: "code_unit \<Rightarrow> code_unit" where
  "ascii_lower_unit c = (if 65 \<le> c \<and> c \<le> 90 then c + 32 else c)"

definition ascii_upper_unit :: "code_unit \<Rightarrow> code_unit" where
  "ascii_upper_unit c = (if 97 \<le> c \<and> c \<le> 122 then c - 32 else c)"

definition ascii_js :: js_strings where
  "ascii_js = \<lparr>toLowerCase = map ascii_lower_unit, toUpperCase = map ascii_upper_unit\<rparr>"

definition ascii :: "string \<Rightarrow> js_string" where
  "ascii s = map of_char s"




text \<open>
  A project \<open>p1\<close> linked to the workflow \<open>wf1\<close>, whose statuses are Todo and Done; the
  synced store also holds the column In Review and the status that mirrors it, with its
  transitions. The other worlds differ in what the environment fails, or in a position.
\<close>

definition ex_todo :: workflow_status where
  "ex_todo = \<lparr>ws_id = ''s1'', ws_workflowId = ''wf1'', ws_name = ascii ''Todo'', ws_key = ascii ''TODO'',
      ws_icon = ''Circle'', ws_color = ''#6B7280'', ws_statusType = ''OPEN'',
      ws_description = None, ws_position = 0, ws_positionX = 100, ws_positionY = 100,
      ws_isInitial = True, ws_isFinal = False\<rparr>"

definition ex_done :: workflow_status where
  "ex_done = \<lparr>ws_id = ''s2'', ws_workflowId = ''wf1'', ws_name = ascii ''Done'', ws_key = ascii ''DONE'',
      ws_icon = ''Circle'', ws_color = ''#6B7280'', ws_statusType = ''CLOSED'',
      ws_description = None, ws_position = 1, ws_positionX = 280, ws_positionY = 100,
      ws_isInitial = False, ws_isFinal = True\<rparr>"

definition ex_review :: workflow_status where
  "ex_review = \<lparr>ws_id = ''s3'', ws_workflowId = ''wf1'', ws_name = ascii ''In Review'',
      ws_key = ascii ''IN_REVIEW'', ws_icon = ''Star'', ws_color = ''#6B7280'',
      ws_statusType = ''OPEN'', ws_description = None, ws_position = 2, ws_positionX = 460,
      ws_positionY = 100, ws_isInitial = False, ws_isFinal = False\<rparr>"

definition ex_review_old :: workflow_status where
  "ex_review_old = ex_review\<lparr>ws_id := ''s4'', ws_name := ascii ''Review (old)'', ws_position := 3,
      ws_positionX := 640\<rparr>"

definition ex_transition :: "doc_id \<Rightarrow> doc_id \<Rightarrow> doc_id \<Rightarrow> workflow_transition" where
  "ex_transition i a b =
     \<lparr>wt_id = i, wt_workflowId = ''wf1'', wt_fromStatusId = a, wt_toStatusId = b\<rparr>"

definition ex_column :: custom_column where
  "ex_column = \<lparr>cc_id = ''c1'', cc_name = ascii ''In Review'', cc_workspaceId = ''ws1'',
      cc_projectId = Some ''p1'', cc_workflowId = None, cc_icon = Some ''Star'',
      cc_color = Some [],
      cc_position = 1000\<rparr>"

definition ex_column_both :: custom_column where
  "ex_column_both = ex_column\<lparr>cc_name := ascii ''Done'', cc_workflowId := Some ''wf2''\<rparr>"

definition ex_request :: create_request where
  "ex_request = \<lparr>rq_name = ascii ''In Review'', rq_workspaceId = ''ws1'', rq_projectId = Some ''p1'',
      rq_workflowId = None, rq_icon = Some ''Star'', rq_color = Some [], rq_position = None\<rparr>"

definition ex_rename :: create_request where
  "ex_rename = ex_request\<lparr>rq_name := ascii ''in_review''\<rparr>"

definition ex_both_request :: create_request where
  "ex_both_request = ex_request\<lparr>rq_name := ascii ''Done'', rq_workflowId := Some ''wf2''\<rparr>"

definition ex_patch :: column_updates where
  "ex_patch = \<lparr>u_name = Some (ascii ''QA''), u_icon = None, u_color = None, u_position = None\<rparr>"

definition ex_world :: world where
  "ex_world = \<lparr>columns = [], projects = [''p1'' \<mapsto> \<lparr>p_workflowId = Some ''wf1''\<rparr>],
      statuses = [ex_todo, ex_done], transitions = [ex_transition ''t1'' ''s1'' ''s2''],
      fault = no_faults, trace = [], errlog = []\<rparr>"

definition ex_world_synced :: world where
  "ex_world_synced = \<lparr>columns = [ex_column],
      projects = [''p1'' \<mapsto> \<lparr>p_workflowId = Some ''wf1''\<rparr>],
      statuses = [ex_todo, ex_done, ex_review],
      transitions = [ex_transition ''t1'' ''s1'' ''s2'', ex_transition ''t2'' ''s1'' ''s3'',
                     ex_transition ''t3'' ''s3'' ''s2''],
      fault = no_faults, trace = [], errlog = []\<rparr>"

definition ex_world_both :: world where
  "ex_world_both = ex_world\<lparr>columns := [ex_column_both]\<rparr>"

definition sync_unavailable :: "nat \<Rightarrow> store_op \<Rightarrow> store_error option" where
  "sync_unavailable n op = (if op_collection op = Columns then None else Some Unavailable)"

fun not_found_in_cascade :: "nat \<Rightarrow> store_op \<Rightarrow> store_error option" where
  "not_found_in_cascade n (OpDelete Transitions i) = Some NotFound"
| "not_found_in_cascade n (OpDelete Statuses i) = Some NotFound"
| "not_found_in_cascade n op = None"

definition fail_sixth_call :: "nat \<Rightarrow> store_op \<Rightarrow> store_error option" where
  "fail_sixth_call n op = (if n = 5 then Some Unavailable else None)"

definition ex_world_failing :: world where
  "ex_world_failing = ex_world_synced\<lparr>fault := sync_unavailable\<rparr>"

definition ex_world_racing :: world where
  "ex_world_racing = ex_world_synced\<lparr>fault := not_found_in_cascade\<rparr>"

text \<open>
  Two statuses match the column In Review, one by its name and both by their key, and a
  transition joins them; in \<open>cx_world\<close> the sixth store call of a request fails.
\<close>

definition ex_world_double :: world where
  "ex_world_double = \<lparr>columns = [ex_column],
      projects = [''p1'' \<mapsto> \<lparr>p_workflowId = Some ''wf1''\<rparr>],
      statuses = [ex_review, ex_review_old],
      transitions = [ex_transition ''t4'' ''s3'' ''s4''],
      fault = no_faults, trace = [], errlog = []\<rparr>"

definition cx_world :: world where
  "cx_world = ex_world_double\<lparr>fault := fail_sixth_call\<rparr>"

text \<open>Every deletion of a transition fails; nothing else does.\<close>

fun transition_deletes_fail :: "nat \<Rightarrow> store_op \<Rightarrow> store_error option" where
  "transition_deletes_fail n (OpDelete Transitions i) = Some Unavailable"
| "transition_deletes_fail n op = None"

definition ex_world_unavailable :: world where
  "ex_world_unavailable = ex_world_synced\<lparr>fault := transition_deletes_fail\<rparr>"

text \<open>A status at position \<open>2 ^ 53\<close>, and a column at position \<open>2 ^ 56\<close>.\<close>

definition ex_world_high :: world where
  "ex_world_high = ex_world\<lparr>statuses := [ex_todo\<lparr>ws_position := 9007199254740992\<rparr>]\<rparr>"

definition ex_world_far :: world where
  "ex_world_far = ex_world\<lparr>columns := [ex_column\<lparr>cc_position := 72057594037927936\<rparr>]\<rparr>"

section \<open>The key normalizer and the numbers\<close>






lemma ascii_units [simp]:
  "ascii_lower_unit 95 = 95" "ascii_upper_unit 95 = 95"
  "ascii_lower_unit (ascii_lower_unit c) = ascii_lower_unit c"
  "ascii_upper_unit (ascii_lower_unit (ascii_upper_unit c)) = ascii_upper_unit c"
  by (auto simp: ascii_lower_unit_def ascii_upper_unit_def)













declare bit_length.simps [simp del]

lemma bit_length_bound: "n < 2 ^ k \<Longrightarrow> bit_length n \<le> k"
proof (induction k arbitrary: n)
  case 0
  then show ?case by (simp add: bit_length.simps)
next
  case (Suc k)
  have "n div 2 < 2 ^ k" using Suc.prems by simp
  then have "bit_length (n div 2) \<le> k" by (rule Suc.IH)
  then show ?case by (subst bit_length.simps) simp
qed

lemma to_double_safe: "\<bar>n\<bar> < 2 ^ 53 \<Longrightarrow> to_double n = n"
proof -
  assume a: "\<bar>n\<bar> < 2 ^ 53"
  have "nat \<bar>n\<bar> < 2 ^ 53" using a by (simp add: nat_less_iff)
  then have "bit_length (nat \<bar>n\<bar>) \<le> 53" by (rule bit_length_bound)
  then have k: "bit_length (nat \<bar>n\<bar>) - 53 = 0" by simp
  show ?thesis
    unfolding to_double_def Let_def k by (simp add: mult_sgn_abs)
qed

lemma safe_representable: "\<bar>n\<bar> < 2 ^ 53 \<Longrightarrow> representable n"
  by (simp add: representable_def to_double_safe)

lemma js_next_exact:
  assumes "finite ps" and "\<forall>p\<in>ps. representable p" and "representable stride"
    and "representable (next_position first stride ps)"
  shows "js_next first stride ps = next_position first stride ps"
proof (cases "ps = {}")
  case True
  then show ?thesis by (simp add: js_next_def next_position_def)
next
  case False
  then have "Max ps \<in> ps" using assms(1) by simp
  then have "to_double (Max ps) = Max ps" using assms(2) by (simp add: representable_def)
  then show ?thesis
    using False assms(3,4)
    by (simp add: js_next_def next_position_def js_add_def representable_def)
qed

lemma js_positionX_exact:
  assumes "representable pos" and "representable (pos * 180)"
    and "representable (100 + pos * 180)"
  shows "js_add 100 (js_mul pos 180) = 100 + pos * 180"
proof -
  have "to_double 100 = 100" "to_double 180 = 180"
    using safe_representable [of 100] safe_representable [of 180]
    by (simp_all add: representable_def)
  then show ?thesis
    using assms by (simp add: js_add_def js_mul_def representable_def)
qed

section \<open>The store calls, one by one\<close>

lemma filter_absent_id:
  "\<not> list_ex (\<lambda>d. f d = i) xs \<Longrightarrow> filter (\<lambda>d. f d \<noteq> i) xs = xs"
  by (induction xs) auto

lemma snd_delete_transition:
  "snd (delete_transition i w) =
     w\<lparr>trace := trace w @ [OpDelete Transitions i],
       transitions := (if fault w (length (trace w)) (OpDelete Transitions i) = None
                       then filter (\<lambda>t. wt_id t \<noteq> i) (transitions w) else transitions w)\<rparr>"
  by (simp add: delete_transition_def attempt_def filter_absent_id split: option.splits)

lemma snd_delete_status:
  "snd (delete_status i w) =
     w\<lparr>trace := trace w @ [OpDelete Statuses i],
       statuses := (if fault w (length (trace w)) (OpDelete Statuses i) = None
                       then filter (\<lambda>t. ws_id t \<noteq> i) (statuses w) else statuses w)\<rparr>"
  by (simp add: delete_status_def attempt_def filter_absent_id split: option.splits)

lemma delete_column_eq:
  "delete_column i w =
     ((case fault w (length (trace w)) (OpDelete Columns i) of
         Some e \<Rightarrow> Inl e
       | None \<Rightarrow> if list_ex (\<lambda>c. cc_id c = i) (columns w) then Inr () else Inl NotFound),
      w\<lparr>trace := trace w @ [OpDelete Columns i],
        columns := (if fault w (length (trace w)) (OpDelete Columns i) = None
                       then filter (\<lambda>t. cc_id t \<noteq> i) (columns w) else columns w)\<rparr>)"
  by (simp add: delete_column_def attempt_def filter_absent_id split: option.splits)

lemma list_statuses_eq:
  "list_statuses fs ord lim w =
     ((case fault w (length (trace w)) (OpList Statuses) of
         Some e \<Rightarrow> Inl e
       | None \<Rightarrow> Inr (run_query fs ord lim (statuses w))),
      w\<lparr>trace := trace w @ [OpList Statuses]\<rparr>)"
  by (simp add: list_statuses_def attempt_def split: option.splits)

lemma list_columns_eq:
  "list_columns fs ord lim w =
     ((case fault w (length (trace w)) (OpList Columns) of
         Some e \<Rightarrow> Inl e
       | None \<Rightarrow> Inr (run_query fs ord lim (columns w))),
      w\<lparr>trace := trace w @ [OpList Columns]\<rparr>)"
  by (simp add: list_columns_def attempt_def split: option.splits)

lemma list_transitions_eq:
  "list_transitions fs w =
     ((case fault w (length (trace w)) (OpList Transitions) of
         Some e \<Rightarrow> Inl e
       | None \<Rightarrow> Inr (run_query fs None None (transitions w))),
      w\<lparr>trace := trace w @ [OpList Transitions]\<rparr>)"
  by (simp add: list_transitions_def attempt_def split: option.splits)

lemma get_project_eq:
  "get_project i w =
     ((case fault w (length (trace w)) (OpGet Projects i) of
         Some e \<Rightarrow> Inl e
       | None \<Rightarrow> (case projects w i of None \<Rightarrow> Inl NotFound | Some p \<Rightarrow> Inr p)),
      w\<lparr>trace := trace w @ [OpGet Projects i]\<rparr>)"
  by (simp add: get_project_def attempt_def split: option.splits)

lemma get_column_eq:
  "get_column i w =
     ((case fault w (length (trace w)) (OpGet Columns i) of
         Some e \<Rightarrow> Inl e
       | None \<Rightarrow> (case find (\<lambda>c. cc_id c = i) (columns w) of
                    None \<Rightarrow> Inl NotFound | Some p \<Rightarrow> Inr p)),
      w\<lparr>trace := trace w @ [OpGet Columns i]\<rparr>)"
  by (simp add: get_column_def attempt_def split: option.splits)

lemma create_column_eq:
  "create_column doc w =
     ((case fault w (length (trace w)) (OpCreate Columns (cc_id doc)) of
         Some e \<Rightarrow> Inl e | None \<Rightarrow> Inr doc),
      w\<lparr>trace := trace w @ [OpCreate Columns (cc_id doc)],
        columns := (if fault w (length (trace w)) (OpCreate Columns (cc_id doc)) = None
                    then columns w @ [doc] else columns w)\<rparr>)"
  by (simp add: create_column_def attempt_def split: option.splits)

lemma create_status_eq:
  "create_status doc w =
     ((case fault w (length (trace w)) (OpCreate Statuses (ws_id doc)) of
         Some e \<Rightarrow> Inl e | None \<Rightarrow> Inr doc),
      w\<lparr>trace := trace w @ [OpCreate Statuses (ws_id doc)],
        statuses := (if fault w (length (trace w)) (OpCreate Statuses (ws_id doc)) = None
                    then statuses w @ [doc] else statuses w)\<rparr>)"
  by (simp add: create_status_def attempt_def split: option.splits)

lemma patch_frame:
  "statuses (snd (patch_handler i u w)) = statuses w \<and>
   transitions (snd (patch_handler i u w)) = transitions w \<and>
   projects (snd (patch_handler i u w)) = projects w \<and>
   trace (snd (patch_handler i u w)) = trace w @ [OpUpdate Columns i]"
  by (simp add: patch_handler_def update_column_def attempt_def split: option.splits)

lemmas store_eqs = list_columns_eq list_statuses_eq list_transitions_eq get_project_eq
  get_column_eq create_column_eq create_status_eq delete_column_eq

lemma delete_transitions_frame [simp]:
  "fault (delete_transitions ts w) = fault w"
  "projects (delete_transitions ts w) = projects w"
  "columns (delete_transitions ts w) = columns w"
  "statuses (delete_transitions ts w) = statuses w"
  "errlog (delete_transitions ts w) = errlog w"
  by (induction ts arbitrary: w) (simp_all add: catch_ignore_def snd_delete_transition)

lemma delete_transitions_trace:
  "trace (delete_transitions ts w) = trace w @ map (\<lambda>t. OpDelete Transitions (wt_id t)) ts"
  by (induction ts arbitrary: w) (simp_all add: catch_ignore_def snd_delete_transition)

lemma delete_transitions_subset:
  "\<exists>R. R \<subseteq> wt_id ` set ts \<and>
       transitions (delete_transitions ts w) = filter (\<lambda>t. wt_id t \<notin> R) (transitions w)"
proof (induction ts arbitrary: w)
  case Nil
  show ?case by (rule exI [of _ "{}"]) simp
next
  case (Cons t ts)
  let ?w1 = "catch_ignore (delete_transition (wt_id t) w)"
  obtain R where R: "R \<subseteq> wt_id ` set ts"
    "transitions (delete_transitions ts ?w1) = filter (\<lambda>t. wt_id t \<notin> R) (transitions ?w1)"
    using Cons.IH [of ?w1] by blast
  show ?case
  proof (cases "fault w (length (trace w)) (OpDelete Transitions (wt_id t)) = None")
    case True
    have "transitions (delete_transitions (t # ts) w)
            = filter (\<lambda>x. wt_id x \<notin> insert (wt_id t) R) (transitions w)"
      using R(2) True by (simp add: catch_ignore_def snd_delete_transition conj_commute)
    then show ?thesis using R(1) by (intro exI [of _ "insert (wt_id t) R"]) auto
  next
    case False
    have "transitions (delete_transitions (t # ts) w)
            = filter (\<lambda>x. wt_id x \<notin> R) (transitions w)"
      using R(2) False by (auto simp: catch_ignore_def snd_delete_transition)
    then show ?thesis using R(1) by (intro exI [of _ R]) auto
  qed
qed

lemma delete_transitions_all:
  assumes "\<forall>n i. fault w n (OpDelete Transitions i) = None"
  shows "transitions (delete_transitions ts w) =
           filter (\<lambda>t. wt_id t \<notin> wt_id ` set ts) (transitions w)"
  using assms
proof (induction ts arbitrary: w)
  case Nil
  show ?case by simp
next
  case (Cons t ts)
  let ?w1 = "catch_ignore (delete_transition (wt_id t) w)"
  have f: "fault ?w1 = fault w"
    by (simp add: catch_ignore_def snd_delete_transition)
  have "transitions (delete_transitions ts ?w1) =
           filter (\<lambda>t. wt_id t \<notin> wt_id ` set ts) (transitions ?w1)"
    using Cons.IH [of ?w1] Cons.prems f by simp
  then show ?case using Cons.prems
    by (simp add: catch_ignore_def snd_delete_transition conj_commute)
qed

lemma run_query_incident:
  "run_query [\<lambda>t. wt_workflowId t = wfid,
              \<lambda>t. wt_fromStatusId t = sid \<or> wt_toStatusId t = sid] None None ts
     = filter (incident wfid sid) ts"
  by (auto simp: run_query_def incident_def intro!: filter_cong)

lemma run_query_matches:
  "run_query (status_match_queries js wfid name) None None ss = filter (matches js wfid name) ss"
  by (auto simp: run_query_def status_match_queries_def matches_def normalizedKey_def
        intro!: filter_cong)

lemma delete_statuses_Cons:
  "delete_statuses wfid (s # rest) w =
     (case fault w (length (trace w)) (OpList Transitions) of
        Some e \<Rightarrow> (Inl e, w\<lparr>trace := trace w @ [OpList Transitions]\<rparr>)
      | None \<Rightarrow> delete_statuses wfid rest (status_round wfid s w))"
  by (simp add: list_transitions_eq run_query_incident status_round_def split: option.splits)

lemma status_round_frame [simp]:
  "fault (status_round wfid s w) = fault w"
  "projects (status_round wfid s w) = projects w"
  "columns (status_round wfid s w) = columns w"
  "errlog (status_round wfid s w) = errlog w"
  by (simp_all add: status_round_def catch_ignore_def snd_delete_status)

lemma status_round_trace:
  "trace (status_round wfid s w) =
     trace w @ OpList Transitions
       # map (\<lambda>t. OpDelete Transitions (wt_id t)) (filter (incident wfid (ws_id s)) (transitions w))
       @ [OpDelete Statuses (ws_id s)]"
  by (simp add: status_round_def catch_ignore_def snd_delete_status delete_transitions_trace)

lemma status_round_transitions:
  "\<exists>R. R \<subseteq> wt_id ` {t \<in> set (transitions w). incident wfid (ws_id s) t} \<and>
       transitions (status_round wfid s w) = filter (\<lambda>t. wt_id t \<notin> R) (transitions w)"
  using delete_transitions_subset
          [of "filter (incident wfid (ws_id s)) (transitions w)"
              "w\<lparr>trace := trace w @ [OpList Transitions]\<rparr>"]
  by (simp add: status_round_def catch_ignore_def snd_delete_status)

lemma status_round_transitions_all:
  assumes "\<forall>n i. fault w n (OpDelete Transitions i) = None"
  shows "transitions (status_round wfid s w) =
           filter (\<lambda>t. wt_id t \<notin> wt_id ` {t \<in> set (transitions w). incident wfid (ws_id s) t})
             (transitions w)"
  using delete_transitions_all
          [of "w\<lparr>trace := trace w @ [OpList Transitions]\<rparr>"
              "filter (incident wfid (ws_id s)) (transitions w)"] assms
  by (simp add: status_round_def catch_ignore_def snd_delete_status)

lemma status_round_statuses:
  "statuses (status_round wfid s w) = statuses w \<or>
   statuses (status_round wfid s w) = filter (\<lambda>x. ws_id x \<noteq> ws_id s) (statuses w)"
  by (simp add: status_round_def catch_ignore_def snd_delete_status)

lemma status_round_statuses_ok:
  assumes "\<forall>n i. fault w n (OpDelete Statuses i) = None"
  shows "statuses (status_round wfid s w) = filter (\<lambda>x. ws_id x \<noteq> ws_id s) (statuses w)"
  using assms by (simp add: status_round_def catch_ignore_def snd_delete_status)

declare delete_statuses.simps(2) [simp del]

lemma delete_statuses_frame:
  "fault (snd (delete_statuses wfid ss w)) = fault w \<and>
   projects (snd (delete_statuses wfid ss w)) = projects w \<and>
   columns (snd (delete_statuses wfid ss w)) = columns w \<and>
   errlog (snd (delete_statuses wfid ss w)) = errlog w"
  by (induction ss arbitrary: w) (simp_all add: delete_statuses_Cons split: option.splits)

section \<open>The cascade loop\<close>

lemma split_at_call:
  assumes "A @ a # B = xs @ b # ys" and "b \<notin> set A"
  shows "(xs = A \<and> a = b \<and> ys = B) \<or> (\<exists>xs'. xs = A @ a # xs' \<and> B = xs' @ b # ys)"
  using assms
  by (auto simp: append_eq_append_conv2 Cons_eq_append_conv append_eq_Cons_conv)

lemma new_calls_append: "trace w' = trace w @ ops \<Longrightarrow> new_calls w w' = ops"
  by (simp add: new_calls_def)

lemma delete_statuses_trace:
  "\<exists>ops. trace (snd (delete_statuses wfid ss w)) = trace w @ ops"
proof (induction ss arbitrary: w)
  case Nil
  show ?case by simp
next
  case (Cons s rest)
  show ?case
  proof (cases "fault w (length (trace w)) (OpList Transitions)")
    case (Some e)
    then show ?thesis by (simp add: delete_statuses_Cons)
  next
    case None
    obtain ops where "trace (snd (delete_statuses wfid rest (status_round wfid s w)))
                        = trace (status_round wfid s w) @ ops"
      using Cons.IH by blast
    then show ?thesis using None
      by (simp add: delete_statuses_Cons status_round_trace)
  qed
qed

lemma delete_statuses_shrink:
  "\<exists>R. R \<subseteq> wt_id ` {t \<in> set (transitions w). \<exists>s\<in>set ss. incident wfid (ws_id s) t} \<and>
       transitions (snd (delete_statuses wfid ss w)) = filter (\<lambda>t. wt_id t \<notin> R) (transitions w)"
proof (induction ss arbitrary: w)
  case Nil
  show ?case by (rule exI [of _ "{}"]) simp
next
  case (Cons s rest)
  show ?case
  proof (cases "fault w (length (trace w)) (OpList Transitions)")
    case (Some e)
    then show ?thesis by (intro exI [of _ "{}"]) (simp add: delete_statuses_Cons)
  next
    case None
    let ?w1 = "status_round wfid s w"
    obtain R1 where R1: "R1 \<subseteq> wt_id ` {t \<in> set (transitions w). incident wfid (ws_id s) t}"
      "transitions ?w1 = filter (\<lambda>t. wt_id t \<notin> R1) (transitions w)"
      using status_round_transitions by blast
    obtain R2 where R2:
      "R2 \<subseteq> wt_id ` {t \<in> set (transitions ?w1). \<exists>x\<in>set rest. incident wfid (ws_id x) t}"
      "transitions (snd (delete_statuses wfid rest ?w1)) = filter (\<lambda>t. wt_id t \<notin> R2) (transitions ?w1)"
      using Cons.IH [of ?w1] by blast
    have sub1: "set (transitions ?w1) \<subseteq> set (transitions w)"
      unfolding R1(2) by auto
    have "R2 \<subseteq> wt_id ` {t \<in> set (transitions w). \<exists>x\<in>set rest. incident wfid (ws_id x) t}"
      using R2(1) sub1 by blast
    with R1(1)
    have sub: "R1 \<union> R2 \<subseteq> wt_id ` {t \<in> set (transitions w). \<exists>x\<in>set (s # rest). incident wfid (ws_id x) t}"
      by (simp add: subset_iff image_iff) blast
    have "transitions (snd (delete_statuses wfid (s # rest) w))
            = filter (\<lambda>t. wt_id t \<notin> R1 \<union> R2) (transitions w)"
      using None R1(2) R2(2) by (simp add: delete_statuses_Cons conj_commute)
    then show ?thesis using sub by blast
  qed
qed

lemma delete_statuses_subset:
  "set (transitions (snd (delete_statuses wfid ss w))) \<subseteq> set (transitions w)"
  using delete_statuses_shrink [of w ss wfid] by auto

lemma delete_statuses_deletes_present:
  "OpDelete Transitions tid \<in> set (new_calls w (snd (delete_statuses wfid ss w))) \<Longrightarrow>
     tid \<in> wt_id ` set (transitions w)"
proof (induction ss arbitrary: w)
  case Nil
  then show ?case by (simp add: new_calls_def)
next
  case (Cons s rest)
  show ?case
  proof (cases "fault w (length (trace w)) (OpList Transitions)")
    case (Some e)
    then show ?thesis using Cons.prems by (simp add: delete_statuses_Cons new_calls_def)
  next
    case None
    let ?w1 = "status_round wfid s w"
    let ?w' = "snd (delete_statuses wfid rest ?w1)"
    let ?pre = "OpList Transitions
       # map (\<lambda>t. OpDelete Transitions (wt_id t)) (filter (incident wfid (ws_id s)) (transitions w))
       @ [OpDelete Statuses (ws_id s)]"
    obtain ops where ops: "trace ?w' = trace ?w1 @ ops"
      using delete_statuses_trace by blast
    have n1: "new_calls ?w1 ?w' = ops" using ops by (rule new_calls_append)
    have n: "new_calls w ?w' = ?pre @ ops"
      using ops by (intro new_calls_append) (simp add: status_round_trace)
    have eq: "snd (delete_statuses wfid (s # rest) w) = ?w'"
      using None by (simp add: delete_statuses_Cons)
    from Cons.prems have "OpDelete Transitions tid \<in> set ?pre \<or> OpDelete Transitions tid \<in> set ops"
      unfolding eq n by auto
    then show ?thesis
    proof
      assume "OpDelete Transitions tid \<in> set ?pre"
      then show ?thesis by auto
    next
      assume "OpDelete Transitions tid \<in> set ops"
      then have "tid \<in> wt_id ` set (transitions ?w1)"
        using Cons.IH [of ?w1] n1 by simp
      moreover have "set (transitions ?w1) \<subseteq> set (transitions w)"
        using status_round_transitions [of w wfid s] by auto
      ultimately show ?thesis by auto
    qed
  qed
qed

lemma cascade_step_calls:
  assumes "fault w (length (trace w)) (OpList Transitions) = None"
  shows "\<exists>ops. new_calls w (snd (delete_statuses wfid (s # rest) w))
            = (OpList Transitions
                 # map (\<lambda>t. OpDelete Transitions (wt_id t))
                     (filter (incident wfid (ws_id s)) (transitions w)))
              @ OpDelete Statuses (ws_id s) # ops \<and>
           new_calls (status_round wfid s w) (snd (delete_statuses wfid rest (status_round wfid s w)))
             = ops"
proof -
  let ?w1 = "status_round wfid s w"
  let ?w' = "snd (delete_statuses wfid rest ?w1)"
  obtain ops where ops: "trace ?w' = trace ?w1 @ ops"
    using delete_statuses_trace by blast
  have n1: "new_calls ?w1 ?w' = ops" using ops by (rule new_calls_append)
  have "new_calls w ?w' = (OpList Transitions
                 # map (\<lambda>t. OpDelete Transitions (wt_id t))
                     (filter (incident wfid (ws_id s)) (transitions w)))
              @ OpDelete Statuses (ws_id s) # ops"
    using ops by (intro new_calls_append) (simp add: status_round_trace)
  moreover have "snd (delete_statuses wfid (s # rest) w) = ?w'"
    using assms by (simp add: delete_statuses_Cons)
  ultimately show ?thesis using n1 by auto
qed

lemma removed_in_round:
  assumes "t \<in> set (transitions w)" and "t \<notin> set (transitions (status_round wfid s w))"
  shows "wt_id t \<in> wt_id ` {x \<in> set (transitions w). incident wfid (ws_id s) x}"
    and "wt_id t \<notin> wt_id ` set (transitions (status_round wfid s w))"
proof -
  obtain R where R: "R \<subseteq> wt_id ` {t \<in> set (transitions w). incident wfid (ws_id s) t}"
      "transitions (status_round wfid s w) = filter (\<lambda>t. wt_id t \<notin> R) (transitions w)"
    using status_round_transitions by blast
  have "wt_id t \<in> R" using assms unfolding R(2) by auto
  then show "wt_id t \<in> wt_id ` {x \<in> set (transitions w). incident wfid (ws_id s) x}"
    using R(1) by blast
  show "wt_id t \<notin> wt_id ` set (transitions (status_round wfid s w))"
    unfolding R(2) using \<open>wt_id t \<in> R\<close> by auto
qed

lemma cascade_transitions_first:
  assumes "new_calls w (snd (delete_statuses wfid ss w)) = xs @ OpDelete Statuses sid # ys"
    and "t \<in> set (transitions w)" and "incident wfid sid t"
  shows "OpDelete Transitions (wt_id t) \<in> set xs"
  using assms
proof (induction ss arbitrary: w xs)
  case Nil
  then show ?case by (simp add: new_calls_def)
next
  case (Cons s rest)
  show ?case
  proof (cases "fault w (length (trace w)) (OpList Transitions)")
    case (Some e)
    then show ?thesis using Cons.prems(1)
      by (simp add: delete_statuses_Cons new_calls_def Cons_eq_append_conv)
  next
    case None
    let ?w1 = "status_round wfid s w"
    let ?A = "OpList Transitions
                 # map (\<lambda>t. OpDelete Transitions (wt_id t))
                     (filter (incident wfid (ws_id s)) (transitions w))"
    obtain ops where ops:
      "new_calls w (snd (delete_statuses wfid (s # rest) w)) = ?A @ OpDelete Statuses (ws_id s) # ops"
      "new_calls ?w1 (snd (delete_statuses wfid rest ?w1)) = ops"
      using cascade_step_calls [OF None] by blast
    have notin: "OpDelete Statuses sid \<notin> set ?A" by auto
    have "?A @ OpDelete Statuses (ws_id s) # ops = xs @ OpDelete Statuses sid # ys"
      using Cons.prems(1) ops(1) by simp
    from split_at_call [OF this notin]
    consider (here) "xs = ?A" "OpDelete Statuses (ws_id s) = OpDelete Statuses sid" "ys = ops"
      | (later) xs' where "xs = ?A @ OpDelete Statuses (ws_id s) # xs'"
          "ops = xs' @ OpDelete Statuses sid # ys"
      by blast
    then show ?thesis
    proof cases
      case here
      then show ?thesis using Cons.prems(2,3) by auto
    next
      case later
      show ?thesis
      proof (cases "t \<in> set (transitions ?w1)")
        case True
        have "OpDelete Transitions (wt_id t) \<in> set xs'"
          using Cons.IH [of ?w1 xs'] ops(2) later(2) True Cons.prems(3) by simp
        then show ?thesis using later(1) by simp
      next
        case False
        then have "wt_id t \<in> wt_id ` {x \<in> set (transitions w). incident wfid (ws_id s) x}"
          using removed_in_round(1) Cons.prems(2) by blast
        then have "OpDelete Transitions (wt_id t) \<in> set ?A" by auto
        then show ?thesis using later(1) by simp
      qed
    qed
  qed
qed

lemma cascade_no_late_transition:
  assumes "\<forall>n i. fault w n (OpDelete Transitions i) = None"
    and "new_calls w (snd (delete_statuses wfid ss w)) = xs @ OpDelete Statuses sid # ys"
    and "t \<in> set (transitions w)" and "incident wfid sid t"
  shows "OpDelete Transitions (wt_id t) \<notin> set ys"
  using assms
proof (induction ss arbitrary: w xs)
  case Nil
  then show ?case by (simp add: new_calls_def)
next
  case (Cons s rest)
  show ?case
  proof (cases "fault w (length (trace w)) (OpList Transitions)")
    case (Some e)
    then show ?thesis using Cons.prems(2)
      by (simp add: delete_statuses_Cons new_calls_def Cons_eq_append_conv)
  next
    case None
    let ?w1 = "status_round wfid s w"
    let ?A = "OpList Transitions
                 # map (\<lambda>t. OpDelete Transitions (wt_id t))
                     (filter (incident wfid (ws_id s)) (transitions w))"
    obtain ops where ops:
      "new_calls w (snd (delete_statuses wfid (s # rest) w)) = ?A @ OpDelete Statuses (ws_id s) # ops"
      "new_calls ?w1 (snd (delete_statuses wfid rest ?w1)) = ops"
      using cascade_step_calls [OF None] by blast
    have gone: "wt_id x \<notin> wt_id ` set (transitions ?w1) \<Longrightarrow> OpDelete Transitions (wt_id x) \<notin> set ops"
      for x
      using delete_statuses_deletes_present [of "wt_id x" ?w1 wfid rest] ops(2) by auto
    have notin: "OpDelete Statuses sid \<notin> set ?A" by auto
    have "?A @ OpDelete Statuses (ws_id s) # ops = xs @ OpDelete Statuses sid # ys"
      using Cons.prems(2) ops(1) by simp
    from split_at_call [OF this notin]
    consider (here) "xs = ?A" "OpDelete Statuses (ws_id s) = OpDelete Statuses sid" "ys = ops"
      | (later) xs' where "xs = ?A @ OpDelete Statuses (ws_id s) # xs'"
          "ops = xs' @ OpDelete Statuses sid # ys"
      by blast
    then show ?thesis
    proof cases
      case here
      have "transitions ?w1 =
           filter (\<lambda>t. wt_id t \<notin> wt_id ` {t \<in> set (transitions w). incident wfid (ws_id s) t})
             (transitions w)"
        using status_round_transitions_all Cons.prems(1) by blast
      moreover have "wt_id t \<in> wt_id ` {t \<in> set (transitions w). incident wfid (ws_id s) t}"
        using here(2) Cons.prems(3,4) by auto
      ultimately have "wt_id t \<notin> wt_id ` set (transitions ?w1)" by auto
      then show ?thesis using gone here(3) by simp
    next
      case later
      show ?thesis
      proof (cases "t \<in> set (transitions ?w1)")
        case True
        have "\<forall>n i. fault ?w1 n (OpDelete Transitions i) = None"
          using Cons.prems(1) by simp
        then show ?thesis
          using Cons.IH [of ?w1 xs'] ops(2) later(2) True Cons.prems(4) by simp
      next
        case False
        then have "wt_id t \<notin> wt_id ` set (transitions ?w1)"
          using removed_in_round(2) Cons.prems(3) by blast
        then have "OpDelete Transitions (wt_id t) \<notin> set ops" by (rule gone)
        then show ?thesis using later(2) by simp
      qed
    qed
  qed
qed

text \<open>State after the loop when no call of the loop is failed.\<close>

lemma cascade_removes_incident:
  assumes "\<forall>n. fault w n (OpList Transitions) = None"
    and "\<forall>n i. fault w n (OpDelete Transitions i) = None"
  shows "fst (delete_statuses wfid ss w) = Inr () \<and>
         (\<forall>t\<in>set (transitions (snd (delete_statuses wfid ss w))).
            \<forall>s\<in>set ss. \<not> incident wfid (ws_id s) t)"
  using assms
proof (induction ss arbitrary: w)
  case Nil
  show ?case by simp
next
  case (Cons s rest)
  let ?w1 = "status_round wfid s w"
  let ?w' = "snd (delete_statuses wfid rest ?w1)"
  have eq: "delete_statuses wfid (s # rest) w = delete_statuses wfid rest ?w1"
    using Cons.prems(1) by (simp add: delete_statuses_Cons)
  have ih: "fst (delete_statuses wfid rest ?w1) = Inr () \<and>
         (\<forall>t\<in>set (transitions ?w'). \<forall>s\<in>set rest. \<not> incident wfid (ws_id s) t)"
    using Cons.IH [of ?w1] Cons.prems by simp
  have t1: "transitions ?w1 =
           filter (\<lambda>t. wt_id t \<notin> wt_id ` {t \<in> set (transitions w). incident wfid (ws_id s) t})
             (transitions w)"
    using status_round_transitions_all Cons.prems(2) by blast
  have "\<forall>t\<in>set (transitions ?w1). \<not> incident wfid (ws_id s) t"
    unfolding t1 by auto
  moreover have "set (transitions ?w') \<subseteq> set (transitions ?w1)"
    by (rule delete_statuses_subset)
  ultimately have "\<forall>t\<in>set (transitions ?w'). \<not> incident wfid (ws_id s) t" by blast
  then show ?case using ih unfolding eq by auto
qed

lemma cascade_statuses:
  assumes "\<forall>n. fault w n (OpList Transitions) = None"
    and "\<forall>n i. fault w n (OpDelete Statuses i) = None"
  shows "statuses (snd (delete_statuses wfid ss w))
           = filter (\<lambda>x. ws_id x \<notin> ws_id ` set ss) (statuses w)"
  using assms
proof (induction ss arbitrary: w)
  case Nil
  show ?case by simp
next
  case (Cons s rest)
  let ?w1 = "status_round wfid s w"
  have eq: "delete_statuses wfid (s # rest) w = delete_statuses wfid rest ?w1"
    using Cons.prems(1) by (simp add: delete_statuses_Cons)
  have "statuses (snd (delete_statuses wfid rest ?w1))
           = filter (\<lambda>x. ws_id x \<notin> ws_id ` set rest) (statuses ?w1)"
    using Cons.IH [of ?w1] Cons.prems by simp
  moreover have "statuses ?w1 = filter (\<lambda>x. ws_id x \<noteq> ws_id s) (statuses w)"
    using status_round_statuses_ok Cons.prems(2) by blast
  ultimately show ?case unfolding eq by (simp add: conj_commute)
qed

section \<open>The handlers\<close>

lemma filterQueries_in_scope: "list_all (\<lambda>q. q c) (filterQueries rq) = in_scope rq c"
  by (simp add: filterQueries_def in_scope_def)

lemma sort_desc_head:
  assumes "sort_key (\<lambda>d. - f d) xs = d # ds"
  shows "d \<in> set xs" and "\<forall>x\<in>set xs. (f x :: int) \<le> f d"
proof -
  have s: "set (sort_key (\<lambda>d. - f d) xs) = set xs" by simp
  show "d \<in> set xs" using s assms by auto
  have "sorted (map (\<lambda>d. - f d) (sort_key (\<lambda>d. - f d) xs))" by (rule sorted_sort_key)
  then have "\<forall>x\<in>set ds. - f d \<le> - f x" using assms by simp
  then show "\<forall>x\<in>set xs. f x \<le> f d" using s assms by auto
qed

lemma run_query_top:
  "(case run_query fs (Some f) (Some (Suc 0)) xs of [] \<Rightarrow> first
      | d # ds \<Rightarrow> js_add (f d) stride)
     = js_next first stride (f ` {x \<in> set xs. list_all (\<lambda>q. q x) fs})"
proof -
  let ?m = "filter (\<lambda>d. list_all (\<lambda>q. q d) fs) xs"
  let ?s = "sort_key (\<lambda>d. - f d) ?m"
  have rq: "run_query fs (Some f) (Some (Suc 0)) xs = take 1 ?s"
    by (simp add: run_query_def)
  show ?thesis
  proof (cases ?s)
    case Nil
    have "length ?s = length ?m" by simp
    then have "?m = []" using Nil by simp
    then have "{x \<in> set xs. list_all (\<lambda>q. q x) fs} = {}"
      by (auto simp: filter_empty_conv)
    then show ?thesis using Nil rq by (simp add: js_next_def)
  next
    case (Cons d ds)
    have d: "d \<in> set ?m" and le: "\<forall>x\<in>set ?m. f x \<le> f d"
      using sort_desc_head [OF Cons] by auto
    have "Max (f ` set ?m) = f d"
      using d le by (intro Max_eqI) auto
    moreover have "set ?m = {x \<in> set xs. list_all (\<lambda>q. q x) fs}" by auto
    ultimately show ?thesis using Cons rq d by (auto simp: js_next_def)
  qed
qed

lemma catch_and_log_frame [simp]:
  "fault (catch_and_log x) = fault (snd x)"
  "projects (catch_and_log x) = projects (snd x)"
  "columns (catch_and_log x) = columns (snd x)"
  "statuses (catch_and_log x) = statuses (snd x)"
  "transitions (catch_and_log x) = transitions (snd x)"
  "trace (catch_and_log x) = trace (snd x)"
  by (induction x rule: catch_and_log.induct; simp)+

lemma finalPosition_eq:
  "finalPosition rq w =
     (case rq_position rq of
        Some p \<Rightarrow> (Inr p, w)
      | None \<Rightarrow>
          ((case fault w (length (trace w)) (OpList Columns) of
              Some e \<Rightarrow> Inl e
            | None \<Rightarrow> Inr (js_next 1000 1000
                              (cc_position ` {c \<in> set (columns w). in_scope rq c}))),
           w\<lparr>trace := trace w @ [OpList Columns]\<rparr>))"
  by (simp add: finalPosition_def list_columns_eq run_query_top filterQueries_in_scope
           split: option.splits)

lemma no_faults_simp [simp]: "no_faults n op = None"
  by (simp add: no_faults_def)

lemma ws_id_new_status [simp]: "ws_id (new_status js i wfid name icon color pos) = i"
  by (simp add: new_status_def)

lemma sync_create_statuses:
  "statuses (snd (sync_create js rq p sid w)) = statuses w \<or>
   ((\<forall>s\<in>set (statuses w). \<not> (\<exists>proj wfid. projects w p = Some proj \<and> p_workflowId proj = Some wfid \<and> matches js wfid (rq_name rq) s)) \<and>
    (\<exists>st. statuses (snd (sync_create js rq p sid w)) = statuses w @ [st]))"
  by (auto simp: sync_create_def store_eqs run_query_matches filter_empty_conv Let_def
           split: option.splits sum.splits list.splits)

lemma sync_create_frame:
  "transitions (snd (sync_create js rq p sid w)) = transitions w \<and>
   columns (snd (sync_create js rq p sid w)) = columns w \<and>
   projects (snd (sync_create js rq p sid w)) = projects w \<and>
   fault (snd (sync_create js rq p sid w)) = fault w"
  by (auto simp: sync_create_def store_eqs Let_def split: option.splits sum.splits list.splits)

lemma sync_create_ok:
  assumes "fault w = no_faults"
    and "projects w p = Some proj" "p_workflowId proj = Some wfid" "wfid \<noteq> []"
    and "\<forall>s\<in>set (statuses w). \<not> matches js wfid (rq_name rq) s"
  shows "statuses (snd (sync_create js rq p sid w)) =
           statuses w @ [new_status js sid wfid (rq_name rq) (rq_icon rq) (rq_color rq)
              (js_next 0 1 (ws_position ` {s \<in> set (statuses w). ws_workflowId s = wfid}))]"
proof -
  have e: "filter (matches js wfid (rq_name rq)) (statuses w) = []"
    using assms(5) by (simp add: filter_empty_conv)
  have top: "(case run_query [\<lambda>s. ws_workflowId s = wfid] (Some ws_position) (Some (Suc 0)) (statuses w)
               of [] \<Rightarrow> 0 | d # ds \<Rightarrow> js_add (ws_position d) 1)
             = js_next 0 1 (ws_position ` {s \<in> set (statuses w). ws_workflowId s = wfid})"
    by (simp add: run_query_top)
  show ?thesis
    using assms(1-4)
    by (simp add: sync_create_def store_eqs run_query_matches e top Let_def)
qed

lemma column_write_frame [simp]:
  "statuses (column_write rq cid w) = statuses w"
  "transitions (column_write rq cid w) = transitions w"
  "projects (column_write rq cid w) = projects w"
  "fault (column_write rq cid w) = fault w"
  "errlog (column_write rq cid w) = errlog w"
  by (auto simp: column_write_def finalPosition_eq create_column_eq documentData_def
           split: option.splits)

lemma column_write_trace:
  "\<exists>ops. trace (column_write rq cid w) = trace w @ ops \<and> (\<forall>op\<in>set ops. op_collection op = Columns)"
  by (auto simp: column_write_def finalPosition_eq create_column_eq documentData_def
           split: option.splits)

lemma post_handler_snd:
  "snd (post_handler js rq cid sid w) = column_write rq cid w \<or>
   (\<exists>p. rq_projectId rq = Some p \<and> p \<noteq> [] \<and> \<not> truthy (rq_workflowId rq) \<and>
        snd (post_handler js rq cid sid w)
          = catch_and_log (sync_create js rq p sid (column_write rq cid w)))"
  by (auto simp: post_handler_def column_write_def split: prod.splits sum.splits option.splits)

lemma post_handler_snd_nosync:
  assumes "\<not> (truthy (rq_projectId rq) \<and> \<not> truthy (rq_workflowId rq))"
  shows "snd (post_handler js rq cid sid w) = column_write rq cid w"
  using assms
  by (auto simp: post_handler_def column_write_def split: prod.splits sum.splits option.splits)

lemma post_handler_snd_sync:
  assumes "\<forall>n op. op_collection op = Columns \<longrightarrow> fault w n op = None"
    and "rq_projectId rq = Some p" "p \<noteq> []" "\<not> truthy (rq_workflowId rq)"
  shows "snd (post_handler js rq cid sid w)
          = catch_and_log (sync_create js rq p sid (column_write rq cid w))"
  using assms
  by (auto simp: post_handler_def column_write_def finalPosition_eq create_column_eq
           split: prod.splits sum.splits option.splits)

lemma post_handler_success:
  assumes "\<forall>n op. op_collection op = Columns \<longrightarrow> fault w n op = None"
  shows "\<exists>pos. fst (post_handler js rq cid sid w) = Inr (documentData rq cid pos) \<and>
          documentData rq cid pos \<in> set (columns (snd (post_handler js rq cid sid w)))"
  using assms
  by (auto simp: post_handler_def finalPosition_eq create_column_eq sync_create_frame
           split: prod.splits sum.splits option.splits)

lemma post_handler_position:
  assumes "rq_position rq = None" and "fst (post_handler js rq cid sid w) = Inr col"
  shows "cc_position col = js_next 1000 1000
                              (cc_position ` {c \<in> set (columns w). in_scope rq c}) \<and>
         col \<in> set (columns (snd (post_handler js rq cid sid w)))"
  using assms
  by (auto simp: post_handler_def finalPosition_eq create_column_eq sync_create_frame
           documentData_def
           split: prod.splits sum.splits option.splits if_splits)

lemma read_before_delete_snd:
  "snd (read_before_delete i w) = w\<lparr>trace := trace w @ [OpGet Columns i]\<rparr>"
  by (simp add: read_before_delete_def get_column_eq split: option.splits)

lemma column_removal_eq:
  "column_removal i w =
     w\<lparr>trace := trace w @ [OpGet Columns i, OpDelete Columns i],
       columns := (if fault w (Suc (length (trace w))) (OpDelete Columns i) = None
                   then filter (\<lambda>c. cc_id c \<noteq> i) (columns w) else columns w)\<rparr>"
  by (simp add: column_removal_def read_before_delete_snd delete_column_eq)

lemma delete_handler_fst:
  "fst (delete_handler js i w) =
     (case fault w (Suc (length (trace w))) (OpDelete Columns i) of
        Some e \<Rightarrow> Inl e
      | None \<Rightarrow> if list_ex (\<lambda>c. cc_id c = i) (columns w) then Inr i else Inl NotFound)"
  by (auto simp: delete_handler_def read_before_delete_def get_column_eq delete_column_eq
           split: prod.splits sum.splits option.splits)

lemma delete_handler_snd:
  "snd (delete_handler js i w) = column_removal i w \<or>
   (\<exists>c p. find (\<lambda>c. cc_id c = i) (columns w) = Some c \<and> cc_name c \<noteq> [] \<and>
          cc_projectId c = Some p \<and> p \<noteq> [] \<and>
          snd (delete_handler js i w)
            = catch_and_log (sync_delete js (cc_name c) p (column_removal i w)))"
  by (auto simp: delete_handler_def column_removal_def read_before_delete_def get_column_eq
           split: prod.splits sum.splits option.splits)

lemma delete_handler_snd_sync:
  assumes "find (\<lambda>c. cc_id c = i) (columns w) = Some c" and "cc_name c \<noteq> []"
    and "cc_projectId c = Some p" and "p \<noteq> []"
    and "fault w (length (trace w)) (OpGet Columns i) = None"
    and "fault w (Suc (length (trace w))) (OpDelete Columns i) = None"
  shows "snd (delete_handler js i w)
            = catch_and_log (sync_delete js (cc_name c) p (column_removal i w))"
proof -
  have "list_ex (\<lambda>c. cc_id c = i) (columns w)"
    using assms(1) by (auto simp: list_ex_iff find_Some_iff)
  then show ?thesis using assms
    by (auto simp: delete_handler_def column_removal_def read_before_delete_def get_column_eq
          delete_column_eq split: prod.splits sum.splits option.splits)
qed

lemma sync_delete_cases:
  "(\<exists>proj wfid. projects w p = Some proj \<and> p_workflowId proj = Some wfid \<and> wfid \<noteq> [] \<and>
       sync_delete js name p w
         = delete_statuses wfid (filter (matches js wfid name) (statuses w)) (cascade_start p w)) \<or>
   (statuses (snd (sync_delete js name p w)) = statuses w \<and>
    transitions (snd (sync_delete js name p w)) = transitions w \<and>
    (\<exists>ops. trace (snd (sync_delete js name p w)) = trace w @ ops \<and>
           set ops \<subseteq> {OpGet Projects p, OpList Statuses}))"
  by (auto simp: sync_delete_def get_project_eq list_statuses_eq run_query_matches
        cascade_start_def split: option.splits)

lemma sync_delete_ok:
  assumes "projects w p = Some proj" and "p_workflowId proj = Some wfid" and "wfid \<noteq> []"
    and "fault w (length (trace w)) (OpGet Projects p) = None"
    and "fault w (Suc (length (trace w))) (OpList Statuses) = None"
  shows "sync_delete js name p w
         = delete_statuses wfid (filter (matches js wfid name) (statuses w)) (cascade_start p w)"
  using assms
  by (simp add: sync_delete_def get_project_eq list_statuses_eq run_query_matches
        cascade_start_def)

lemma sync_delete_frame:
  "fault (snd (sync_delete js name p w)) = fault w \<and>
   projects (snd (sync_delete js name p w)) = projects w \<and>
   columns (snd (sync_delete js name p w)) = columns w \<and>
   errlog (snd (sync_delete js name p w)) = errlog w"
  using delete_statuses_frame
  by (auto simp: sync_delete_def get_project_eq list_statuses_eq split: option.splits)

lemma column_removal_frame [simp]:
  "statuses (column_removal i w) = statuses w"
  "transitions (column_removal i w) = transitions w"
  "projects (column_removal i w) = projects w"
  "fault (column_removal i w) = fault w"
  "errlog (column_removal i w) = errlog w"
  "trace (column_removal i w) = trace w @ [OpGet Columns i, OpDelete Columns i]"
  by (simp_all add: column_removal_eq)

lemma cascade_start_frame [simp]:
  "statuses (cascade_start p w) = statuses w"
  "transitions (cascade_start p w) = transitions w"
  "projects (cascade_start p w) = projects w"
  "columns (cascade_start p w) = columns w"
  "fault (cascade_start p w) = fault w"
  "errlog (cascade_start p w) = errlog w"
  "trace (cascade_start p w) = trace w @ [OpGet Projects p, OpList Statuses]"
  by (simp_all add: cascade_start_def)

lemma split_after_prefix:
  assumes "A @ B = xs @ b # ys" and "b \<notin> set A"
  shows "\<exists>xs'. xs = A @ xs' \<and> B = xs' @ b # ys"
  using assms
  by (auto simp: append_eq_append_conv2 Cons_eq_append_conv append_eq_Cons_conv)

lemma delete_handler_calls:
  assumes "find (\<lambda>c. cc_id c = i) (columns w) = Some c" and "cc_projectId c = Some p"
    and "projects w p = Some proj" and "p_workflowId proj = Some wfid"
  shows "(\<forall>sid. OpDelete Statuses sid \<notin> set (new_calls w (snd (delete_handler js i w)))) \<or>
         (\<exists>A. (\<forall>sid. OpDelete Statuses sid \<notin> set A) \<and>
              new_calls w (snd (delete_handler js i w))
                = A @ new_calls (cascade_start p (column_removal i w))
                        (snd (delete_statuses wfid (filter (matches js wfid (cc_name c)) (statuses w))
                                (cascade_start p (column_removal i w)))))"
proof -
  let ?cr = "column_removal i w"
  let ?w4 = "cascade_start p ?cr"
  let ?ms = "filter (matches js wfid (cc_name c)) (statuses w)"
  from delete_handler_snd [of js i w]
  consider (plain) "snd (delete_handler js i w) = ?cr"
    | (sync) "snd (delete_handler js i w) = catch_and_log (sync_delete js (cc_name c) p ?cr)"
    using assms(1,2) by (elim disjE exE conjE) simp_all
  then show ?thesis
  proof cases
    case plain
    then show ?thesis by (simp add: new_calls_def)
  next
    case sync
    from sync_delete_cases [where w = ?cr and p = p and name = "cc_name c" and js = js]
    consider (loop) "sync_delete js (cc_name c) p ?cr = delete_statuses wfid ?ms ?w4"
      | (stop) ops where "trace (snd (sync_delete js (cc_name c) p ?cr)) = trace ?cr @ ops"
          "set ops \<subseteq> {OpGet Projects p, OpList Statuses}"
      using assms(3,4) by (elim disjE exE conjE) simp_all
    then show ?thesis
    proof cases
      case loop
      obtain ops where ops: "trace (snd (delete_statuses wfid ?ms ?w4)) = trace ?w4 @ ops"
        using delete_statuses_trace by blast
      have "new_calls ?w4 (snd (delete_statuses wfid ?ms ?w4)) = ops"
        using ops by (rule new_calls_append)
      moreover have "new_calls w (snd (delete_handler js i w))
          = [OpGet Columns i, OpDelete Columns i, OpGet Projects p, OpList Statuses] @ ops"
        using ops sync loop by (intro new_calls_append) simp
      ultimately show ?thesis
        by (intro disjI2 exI [of _ "[OpGet Columns i, OpDelete Columns i, OpGet Projects p, OpList Statuses]"])
           simp
    next
      case stop
      have "new_calls w (snd (delete_handler js i w)) = [OpGet Columns i, OpDelete Columns i] @ ops"
        using stop(1) sync by (intro new_calls_append) simp
      moreover have "\<forall>sid. OpDelete Statuses sid \<notin> set ops" using stop(2) by auto
      ultimately show ?thesis by simp
    qed
  qed
qed

lemma handler_transitions_first:
  assumes "find (\<lambda>c. cc_id c = i) (columns w) = Some c" and "cc_projectId c = Some p"
    and "projects w p = Some proj" and "p_workflowId proj = Some wfid"
    and "new_calls w (snd (delete_handler js i w)) = xs @ OpDelete Statuses sid # ys"
    and "t \<in> set (transitions w)" and "incident wfid sid t"
  shows "OpDelete Transitions (wt_id t) \<in> set xs"
    and "\<forall>n x. fault w n (OpDelete Transitions x) = None \<Longrightarrow>
           OpDelete Transitions (wt_id t) \<notin> set ys"
proof -
  let ?w4 = "cascade_start p (column_removal i w)"
  let ?ms = "filter (matches js wfid (cc_name c)) (statuses w)"
  define N where "N = new_calls w (snd (delete_handler js i w))"
  define C where "C = new_calls ?w4 (snd (delete_statuses wfid ?ms ?w4))"
  have N: "N = xs @ OpDelete Statuses sid # ys"
    using assms(5) by (simp add: N_def)
  then have "\<not> (\<forall>sid. OpDelete Statuses sid \<notin> set N)" by auto
  moreover have "(\<forall>sid. OpDelete Statuses sid \<notin> set N) \<or>
         (\<exists>A. (\<forall>sid. OpDelete Statuses sid \<notin> set A) \<and> N = A @ C)"
    using delete_handler_calls [OF assms(1-4)] unfolding N_def C_def .
  ultimately obtain A where A: "\<forall>sid. OpDelete Statuses sid \<notin> set A" "N = A @ C"
    by blast
  have "A @ C = xs @ OpDelete Statuses sid # ys"
    using A(2) N by simp
  from split_after_prefix [OF this A(1) [THEN spec]]
  obtain xs' where xs'0: "xs = A @ xs'" "C = xs' @ OpDelete Statuses sid # ys"
    by blast
  have xs': "xs = A @ xs'"
      "new_calls ?w4 (snd (delete_statuses wfid ?ms ?w4)) = xs' @ OpDelete Statuses sid # ys"
    using xs'0 unfolding C_def .
  have t: "t \<in> set (transitions ?w4)" using assms(6) by simp
  have "OpDelete Transitions (wt_id t) \<in> set xs'"
    using cascade_transitions_first [OF xs'(2) t assms(7)] .
  then show "OpDelete Transitions (wt_id t) \<in> set xs" using xs'(1) by simp
  assume "\<forall>n x. fault w n (OpDelete Transitions x) = None"
  then have "\<forall>n x. fault ?w4 n (OpDelete Transitions x) = None" by simp
  from cascade_no_late_transition [OF this xs'(2) t assms(7)]
  show "OpDelete Transitions (wt_id t) \<notin> set ys" .
qed

lemma cascade_completes:
  assumes "\<forall>n. fault w n (OpList Transitions) = None"
  shows "fst (delete_statuses wfid ss w) = Inr () \<and>
         (\<forall>s\<in>set ss. OpDelete Statuses (ws_id s)
                         \<in> set (new_calls w (snd (delete_statuses wfid ss w))))"
  using assms
proof (induction ss arbitrary: w)
  case Nil
  show ?case by simp
next
  case (Cons s rest)
  let ?w1 = "status_round wfid s w"
  have none: "fault w (length (trace w)) (OpList Transitions) = None"
    using Cons.prems by simp
  obtain ops where ops:
      "new_calls w (snd (delete_statuses wfid (s # rest) w))
         = (OpList Transitions
              # map (\<lambda>t. OpDelete Transitions (wt_id t))
                  (filter (incident wfid (ws_id s)) (transitions w)))
           @ OpDelete Statuses (ws_id s) # ops"
      "new_calls ?w1 (snd (delete_statuses wfid rest ?w1)) = ops"
    using cascade_step_calls [OF none] by blast
  have ih: "fst (delete_statuses wfid rest ?w1) = Inr () \<and>
         (\<forall>s\<in>set rest. OpDelete Statuses (ws_id s) \<in> set ops)"
    using Cons.IH [of ?w1] Cons.prems ops(2) by simp
  have "fst (delete_statuses wfid (s # rest) w) = fst (delete_statuses wfid rest ?w1)"
    using none by (simp add: delete_statuses_Cons)
  then show ?case using ih unfolding ops(1) by simp
qed

lemma cascade_transitions_exact:
  assumes "\<forall>n. fault w n (OpList Transitions) = None"
    and "\<forall>n i. fault w n (OpDelete Transitions i) = None"
  shows "transitions (snd (delete_statuses wfid ss w))
           = filter (\<lambda>t. wt_id t \<notin> wt_id ` {x \<in> set (transitions w).
                                                  \<exists>s\<in>set ss. incident wfid (ws_id s) x})
               (transitions w)"
proof -
  let ?I = "{x \<in> set (transitions w). \<exists>s\<in>set ss. incident wfid (ws_id s) x}"
  let ?w' = "snd (delete_statuses wfid ss w)"
  obtain R where R: "R \<subseteq> wt_id ` ?I"
      "transitions ?w' = filter (\<lambda>t. wt_id t \<notin> R) (transitions w)"
    using delete_statuses_shrink by blast
  have gone: "\<forall>t\<in>set (transitions ?w'). \<forall>s\<in>set ss. \<not> incident wfid (ws_id s) t"
    using cascade_removes_incident [OF assms] by blast
  have "wt_id ` ?I \<subseteq> R"
  proof
    fix i assume "i \<in> wt_id ` ?I"
    then obtain x where x: "x \<in> set (transitions w)" "\<exists>s\<in>set ss. incident wfid (ws_id s) x"
        "i = wt_id x" by auto
    then have "x \<notin> set (transitions ?w')" using gone by blast
    then show "i \<in> R" using x(1,3) unfolding R(2) by simp
  qed
  then have "R = wt_id ` ?I" using R(1) by blast
  then show ?thesis using R(2) by simp
qed

lemma delete_handler_cascade:
  assumes "find (\<lambda>c. cc_id c = i) (columns w) = Some c" and "cc_name c \<noteq> []"
    and "cc_projectId c = Some p" and "p \<noteq> []"
    and "projects w p = Some proj" and "p_workflowId proj = Some wfid" and "wfid \<noteq> []"
    and "\<forall>n op. (\<forall>x. op \<noteq> OpDelete Transitions x \<and> op \<noteq> OpDelete Statuses x) \<longrightarrow> fault w n op = None"
  shows "snd (delete_handler js i w)
           = catch_and_log (delete_statuses wfid (filter (matches js wfid (cc_name c)) (statuses w))
                              (cascade_start p (column_removal i w)))"
    and "fst (delete_handler js i w) = Inr i"
proof -
  have f: "fault w n (OpGet Columns i) = None" "fault w n (OpDelete Columns i) = None"
       "fault w n (OpGet Projects p) = None" "fault w n (OpList Statuses) = None" for n
    using assms(8) by simp_all
  have ex: "list_ex (\<lambda>c. cc_id c = i) (columns w)"
    using assms(1) by (auto simp: list_ex_iff find_Some_iff)
  show "fst (delete_handler js i w) = Inr i"
    using f ex by (simp add: delete_handler_fst)
  have "snd (delete_handler js i w)
            = catch_and_log (sync_delete js (cc_name c) p (column_removal i w))"
    using delete_handler_snd_sync [OF assms(1-4)] f by simp
  moreover have "sync_delete js (cc_name c) p (column_removal i w)
         = delete_statuses wfid (filter (matches js wfid (cc_name c)) (statuses (column_removal i w)))
             (cascade_start p (column_removal i w))"
    using assms(5-7) f by (intro sync_delete_ok) simp_all
  ultimately show "snd (delete_handler js i w)
           = catch_and_log (delete_statuses wfid (filter (matches js wfid (cc_name c)) (statuses w))
                              (cascade_start p (column_removal i w)))"
    by simp
qed

lemma delete_handler_ok:
  assumes "fault w = no_faults"
    and "find (\<lambda>c. cc_id c = i) (columns w) = Some c" and "cc_name c \<noteq> []"
    and "cc_projectId c = Some p" and "p \<noteq> []"
    and "projects w p = Some proj" and "p_workflowId proj = Some wfid" and "wfid \<noteq> []"
  shows "fst (delete_handler js i w) = Inr i"
    and "statuses (snd (delete_handler js i w))
           = filter (\<lambda>x. ws_id x \<notin> ws_id ` {s \<in> set (statuses w). matches js wfid (cc_name c) s})
               (statuses w)"
    and "transitions (snd (delete_handler js i w))
           = filter (\<lambda>t. wt_id t \<notin> wt_id ` {x \<in> set (transitions w).
                       \<exists>s\<in>set (statuses w). matches js wfid (cc_name c) s \<and> incident wfid (ws_id s) x})
               (transitions w)"
    and "columns (snd (delete_handler js i w)) = filter (\<lambda>c. cc_id c \<noteq> i) (columns w)"
proof -
  let ?w4 = "cascade_start p (column_removal i w)"
  let ?ms = "filter (matches js wfid (cc_name c)) (statuses w)"
  have nf: "\<forall>n op. (\<forall>x. op \<noteq> OpDelete Transitions x \<and> op \<noteq> OpDelete Statuses x) \<longrightarrow> fault w n op = None"
    using assms(1) by simp
  have w': "snd (delete_handler js i w) = catch_and_log (delete_statuses wfid ?ms ?w4)"
    and r: "fst (delete_handler js i w) = Inr i"
    using delete_handler_cascade [OF assms(2-8) nf] by simp_all
  show "fst (delete_handler js i w) = Inr i" by (rule r)
  have f4: "\<forall>n. fault ?w4 n (OpList Transitions) = None"
       "\<forall>n i. fault ?w4 n (OpDelete Transitions i) = None"
       "\<forall>n i. fault ?w4 n (OpDelete Statuses i) = None"
    using assms(1) by simp_all
  have "statuses (snd (delete_statuses wfid ?ms ?w4))
           = filter (\<lambda>x. ws_id x \<notin> ws_id ` set ?ms) (statuses ?w4)"
    using cascade_statuses [OF f4(1) f4(3)] .
  then show "statuses (snd (delete_handler js i w))
           = filter (\<lambda>x. ws_id x \<notin> ws_id ` {s \<in> set (statuses w). matches js wfid (cc_name c) s})
               (statuses w)"
    unfolding w' by simp
  have "transitions (snd (delete_statuses wfid ?ms ?w4))
           = filter (\<lambda>t. wt_id t \<notin> wt_id ` {x \<in> set (transitions ?w4).
                                                  \<exists>s\<in>set ?ms. incident wfid (ws_id s) x})
               (transitions ?w4)"
    using cascade_transitions_exact [OF f4(1) f4(2)] .
  moreover have "{x \<in> set (transitions ?w4). \<exists>s\<in>set ?ms. incident wfid (ws_id s) x}
      = {x \<in> set (transitions w).
           \<exists>s\<in>set (statuses w). matches js wfid (cc_name c) s \<and> incident wfid (ws_id s) x}"
    by auto
  ultimately show "transitions (snd (delete_handler js i w))
           = filter (\<lambda>t. wt_id t \<notin> wt_id ` {x \<in> set (transitions w).
                       \<exists>s\<in>set (statuses w). matches js wfid (cc_name c) s \<and> incident wfid (ws_id s) x})
               (transitions w)"
    unfolding w' by simp
  have "columns (snd (delete_statuses wfid ?ms ?w4)) = columns ?w4"
    using delete_statuses_frame by blast
  then show "columns (snd (delete_handler js i w)) = filter (\<lambda>c. cc_id c \<noteq> i) (columns w)"
    unfolding w' using assms(1) by (simp add: column_removal_eq)
qed

lemma delete_handler_removes_column:
  assumes "\<forall>n. fault w n (OpDelete Columns i) = None"
  shows "\<not> list_ex (\<lambda>c. cc_id c = i) (columns (snd (delete_handler js i w)))"
proof -
  have cr: "columns (column_removal i w) = filter (\<lambda>c. cc_id c \<noteq> i) (columns w)"
    using assms by (simp add: column_removal_eq)
  have "columns (snd (delete_handler js i w)) = columns (column_removal i w)"
    using delete_handler_snd [of js i w] sync_delete_frame by (elim disjE exE conjE) simp_all
  then show ?thesis using cr by (simp add: list_ex_iff)
qed

lemma catch_and_log_ok: "fst x = Inr u \<Longrightarrow> catch_and_log x = snd x"
  by (cases x) simp

section \<open>The example store, evaluated\<close>

lemma comprehension_as_filter: "{x \<in> set xs. P x} = set (filter P xs)"
  by auto

lemma key_in_review:
  "toUpperCase ascii_js (replace_separator_runs (toLowerCase ascii_js (ascii ''In Review'')))
     = ascii ''IN_REVIEW''"
  by code_simp

lemma ex_world_simps [simp]:
  "columns ex_world = []"
  "projects ex_world = [''p1'' \<mapsto> \<lparr>p_workflowId = Some ''wf1''\<rparr>]"
  "statuses ex_world = [ex_todo, ex_done]"
  "transitions ex_world = [ex_transition ''t1'' ''s1'' ''s2'']"
  "fault ex_world = no_faults"
  "trace ex_world = []"
  "errlog ex_world = []"
  by (simp_all add: ex_world_def)

lemma ex_world_synced_simps [simp]:
  "columns ex_world_synced = [ex_column]"
  "projects ex_world_synced = [''p1'' \<mapsto> \<lparr>p_workflowId = Some ''wf1''\<rparr>]"
  "statuses ex_world_synced = [ex_todo, ex_done, ex_review]"
  "transitions ex_world_synced =
     [ex_transition ''t1'' ''s1'' ''s2'', ex_transition ''t2'' ''s1'' ''s3'',
      ex_transition ''t3'' ''s3'' ''s2'']"
  "fault ex_world_synced = no_faults"
  "trace ex_world_synced = []"
  "errlog ex_world_synced = []"
  by (simp_all add: ex_world_synced_def)

lemma ex_world_failing_simps [simp]:
  "columns ex_world_failing = [ex_column]"
  "fault ex_world_failing = sync_unavailable"
  by (simp_all add: ex_world_failing_def)

lemma ex_world_racing_simps [simp]:
  "columns ex_world_racing = [ex_column]"
  "projects ex_world_racing = [''p1'' \<mapsto> \<lparr>p_workflowId = Some ''wf1''\<rparr>]"
  "statuses ex_world_racing = [ex_todo, ex_done, ex_review]"
  "transitions ex_world_racing =
     [ex_transition ''t1'' ''s1'' ''s2'', ex_transition ''t2'' ''s1'' ''s3'',
      ex_transition ''t3'' ''s3'' ''s2'']"
  "fault ex_world_racing = not_found_in_cascade"
  "errlog ex_world_racing = []"
  by (simp_all add: ex_world_racing_def)

lemma ex_world_double_simps [simp]:
  "columns ex_world_double = [ex_column]"
  "projects ex_world_double = [''p1'' \<mapsto> \<lparr>p_workflowId = Some ''wf1''\<rparr>]"
  "statuses ex_world_double = [ex_review, ex_review_old]"
  "transitions ex_world_double = [ex_transition ''t4'' ''s3'' ''s4'']"
  "fault ex_world_double = no_faults"
  by (simp_all add: ex_world_double_def)

lemma ex_world_both_simps [simp]:
  "columns ex_world_both = [ex_column_both]"
  "projects ex_world_both = [''p1'' \<mapsto> \<lparr>p_workflowId = Some ''wf1''\<rparr>]"
  "statuses ex_world_both = [ex_todo, ex_done]"
  "fault ex_world_both = no_faults"
  by (simp_all add: ex_world_both_def)

lemma ex_matches [simp]:
  "matches ascii_js ''wf1'' (ascii ''In Review'') ex_todo = False"
  "matches ascii_js ''wf1'' (ascii ''In Review'') ex_done = False"
  "matches ascii_js ''wf1'' (ascii ''In Review'') ex_review = True"
  "matches ascii_js ''wf1'' (ascii ''in_review'') ex_review = True"
  "matches ascii_js ''wf1'' (ascii ''Done'') ex_done = True"
  "matches ascii_js ''wf1'' (ascii ''In Review'') ex_review_old = True"
  by code_simp+

lemma ex_ids [simp]:
  "ws_id ex_todo = ''s1''" "ws_id ex_done = ''s2''" "ws_id ex_review = ''s3''"
  "ws_id ex_review_old = ''s4''"
  "wt_id (ex_transition i a b) = i"
  "ws_workflowId ex_todo = ''wf1''" "ws_workflowId ex_done = ''wf1''"
  "ws_position ex_todo = 0" "ws_position ex_done = 1"
  by (simp_all add: ex_todo_def ex_done_def ex_review_def ex_review_old_def ex_transition_def)

lemma ex_incident [simp]:
  "incident ''wf1'' sid (ex_transition i a b) = (a = sid \<or> b = sid)"
  by (simp add: incident_def ex_transition_def)

lemma ex_column_simps [simp]:
  "cc_id ex_column = ''c1''" "cc_name ex_column = ascii ''In Review''"
  "cc_projectId ex_column = Some ''p1''" "cc_position ex_column = 1000"
  "cc_workspaceId ex_column = ''ws1''" "cc_workflowId ex_column = None"
  "cc_id ex_column_both = ''c1''" "cc_name ex_column_both = ascii ''Done''"
  "cc_projectId ex_column_both = Some ''p1''" "cc_workflowId ex_column_both = Some ''wf2''"
  by (simp_all add: ex_column_def ex_column_both_def)

lemma ex_request_simps [simp]:
  "rq_projectId ex_request = Some ''p1''" "rq_workflowId ex_request = None"
  "rq_name ex_request = ascii ''In Review''" "rq_position ex_request = None"
  "rq_workspaceId ex_request = ''ws1''"
  "rq_projectId ex_rename = Some ''p1''" "rq_name ex_rename = ascii ''in_review''"
  "rq_projectId ex_both_request = Some ''p1''" "rq_workflowId ex_both_request = Some ''wf2''"
  by (simp_all add: ex_request_def ex_rename_def ex_both_request_def)

lemma ex_world_unavailable_simps [simp]:
  "columns ex_world_unavailable = [ex_column]"
  "fault ex_world_unavailable = transition_deletes_fail"
  by (simp_all add: ex_world_unavailable_def)

lemma ex_names_nonempty [simp]:
  "ascii ''In Review'' \<noteq> []" "ascii ''Done'' \<noteq> []"
  by (simp_all add: ascii_def)

lemma not_found_only_in_cascade:
  "(\<forall>x. op \<noteq> OpDelete Transitions x \<and> op \<noteq> OpDelete Statuses x) \<Longrightarrow>
     not_found_in_cascade n op = None"
  by (cases "(n, op)" rule: not_found_in_cascade.cases) simp_all

section \<open>The claims\<close>

text \<open>
  Claim C1, as amended. A column is created for a project (\<open>projectId\<close> set, \<open>workflowId\<close>
  unset) whose project is linked to a workflow, and no status of that workflow has the
  column's name or its normalized key. When no store call fails, exactly one status is added
  to the store: its name is the column's name, its key the normalized key, its type \<open>OPEN\<close>, it
  is neither initial nor final, its position \<open>pos\<close> is the largest position among the
  workflow's statuses plus one (\<open>0\<close> when the workflow has none), its canvas position is
  \<open>100 + pos * 180\<close> by \<open>100\<close>, and its icon and color are the column's, or \<open>Circle\<close> and
  \<open>#6B7280\<close> when the column has none or an empty one; provided the positions of the
  workflow's statuses, \<open>pos\<close>, \<open>pos * 180\<close> and \<open>100 + pos * 180\<close> are numbers that JavaScript
  holds exactly.
\<close>

theorem create_mirrors_status:
  assumes "fault w = no_faults"
    and "rq_projectId rq = Some p" and "p \<noteq> []" and "\<not> truthy (rq_workflowId rq)"
    and "projects w p = Some proj" and "p_workflowId proj = Some wfid" and "wfid \<noteq> []"
    and "\<forall>s\<in>set (statuses w). \<not> matches js wfid (rq_name rq) s"
    and "pos = next_position 0 1 (ws_position ` {s \<in> set (statuses w). ws_workflowId s = wfid})"
    and "\<forall>s\<in>set (statuses w). ws_workflowId s = wfid \<longrightarrow> representable (ws_position s)"
    and "representable pos" and "representable (pos * 180)"
    and "representable (100 + pos * 180)"
  shows "statuses (snd (post_handler js rq cid sid w)) =
           statuses w @
           [\<lparr>ws_id = sid, ws_workflowId = wfid, ws_name = rq_name rq,
             ws_key = toUpperCase js (replace_separator_runs (toLowerCase js (rq_name rq))),
             ws_icon = (case rq_icon rq of None \<Rightarrow> ''Circle''
                        | Some i \<Rightarrow> if i = [] then ''Circle'' else i),
             ws_color = (case rq_color rq of None \<Rightarrow> ''#6B7280''
                         | Some k \<Rightarrow> if k = [] then ''#6B7280'' else k),
             ws_statusType = ''OPEN'', ws_description = None,
             ws_position = pos, ws_positionX = 100 + pos * 180,
             ws_positionY = 100, ws_isInitial = False, ws_isFinal = False\<rparr>]"
proof -
  let ?w2 = "column_write rq cid w"
  have nf: "\<forall>n op. op_collection op = Columns \<longrightarrow> fault w n op = None"
    using assms(1) by simp
  have "snd (post_handler js rq cid sid w) = catch_and_log (sync_create js rq p sid ?w2)"
    using post_handler_snd_sync [OF nf assms(2-4)] .
  moreover have "statuses (snd (sync_create js rq p sid ?w2)) =
           statuses ?w2 @ [new_status js sid wfid (rq_name rq) (rq_icon rq) (rq_color rq)
              (js_next 0 1 (ws_position ` {s \<in> set (statuses ?w2). ws_workflowId s = wfid}))]"
    using assms(1,5-8) by (intro sync_create_ok) simp_all
  moreover have "js_next 0 1 (ws_position ` {s \<in> set (statuses w). ws_workflowId s = wfid}) = pos"
    unfolding assms(9) using assms(9-11)
    by (intro js_next_exact) (auto simp: safe_representable)
  moreover have "js_add 100 (js_mul pos 180) = 100 + pos * 180"
    using assms(11-13) by (rule js_positionX_exact)
  moreover have "or_default x d = (case x of None \<Rightarrow> d | Some i \<Rightarrow> if i = [] then d else i)"
    for x d by (cases x) simp_all
  ultimately show ?thesis by (simp add: new_status_def normalizedKey_def)
qed

theorem create_mirrors_status_witness:
  "fault ex_world = no_faults \<and>
   projects ex_world ''p1'' = Some \<lparr>p_workflowId = Some ''wf1''\<rparr> \<and>
   filter (matches ascii_js ''wf1'' (ascii ''In Review'')) (statuses ex_world) = [] \<and>
   rq_icon ex_request = Some ''Star'' \<and> rq_color ex_request = Some [] \<and>
   statuses (snd (post_handler ascii_js ex_request ''c1'' ''s3'' ex_world))
     = [ex_todo, ex_done, ex_review]"
proof -
  have rq: "rq_projectId ex_request = Some ''p1''" "\<not> truthy (rq_workflowId ex_request)"
    "rq_name ex_request = ascii ''In Review''" "rq_icon ex_request = Some ''Star''"
    "rq_color ex_request = Some []"
    by (simp_all add: ex_request_def)
  have nomatch: "\<forall>s\<in>set (statuses ex_world). \<not> matches ascii_js ''wf1'' (rq_name ex_request) s"
    by (simp add: rq)
  have pos: "2 = next_position 0 1
                   (ws_position ` {s \<in> set (statuses ex_world). ws_workflowId s = ''wf1''})"
    unfolding comprehension_as_filter by (simp add: next_position_def)
  have held: "\<forall>s\<in>set (statuses ex_world).
                 ws_workflowId s = ''wf1'' \<longrightarrow> representable (ws_position s)"
    by (simp add: safe_representable)
  have r: "representable 2" "representable (2 * 180)" "representable (100 + 2 * 180)"
    by (simp_all add: safe_representable)
  note inst = create_mirrors_status [where w = ex_world and rq = ex_request and p = "''p1''"
             and proj = "\<lparr>p_workflowId = Some ''wf1''\<rparr>" and wfid = "''wf1''"
             and js = ascii_js and pos = 2 and cid = "''c1''" and sid = "''s3''",
             OF _ rq(1) _ rq(2) _ _ _ nomatch pos held r]
  have "statuses (snd (post_handler ascii_js ex_request ''c1'' ''s3'' ex_world))
          = [ex_todo, ex_done, ex_review]"
    using inst by (simp add: rq key_in_review ex_review_def)
  then show ?thesis by (simp add: rq)
qed

text \<open>
  As first stated, claim C1 has no proviso on the numbers. In \<open>ex_world_high\<close> the only status
  of the workflow is at position \<open>2 ^ 53\<close>: the sum \<open>2 ^ 53 + 1\<close> is no JavaScript number, and
  the status that the request adds is at position \<open>2 ^ 53\<close> as well.
\<close>

theorem create_mirrors_status_counterexample:
  "filter (matches ascii_js ''wf1'' (ascii ''In Review'')) (statuses ex_world_high) = [] \<and>
   map ws_position (statuses ex_world_high) = [9007199254740992] \<and>
   map ws_position (statuses (snd (post_handler ascii_js ex_request ''c1'' ''s3'' ex_world_high)))
     = [9007199254740992, 9007199254740992]"
  by code_simp

text \<open>
  Claim C2. A column with a name and a project is deleted. When no store call fails and the
  project is linked to a workflow, every status of that workflow that matches the column's
  name or normalized key is gone afterwards, with every transition of the workflow that has
  such a status as an endpoint; the statuses and transitions that remain are exactly those
  whose id is not the id of a deleted one. And whatever fails in the project lookup or
  later, the column itself is removed once its own deletion call is not failed.
\<close>

theorem delete_cascades:
  assumes "find (\<lambda>c. cc_id c = i) (columns w) = Some c" and "cc_name c \<noteq> []"
    and "cc_projectId c = Some p" and "p \<noteq> []"
  shows "(fault w = no_faults \<and> projects w p = Some proj \<and> p_workflowId proj = Some wfid \<and>
          wfid \<noteq> [] \<longrightarrow>
            (\<forall>s\<in>set (statuses w). matches js wfid (cc_name c) s \<longrightarrow>
               s \<notin> set (statuses (snd (delete_handler js i w))) \<and>
               (\<forall>t\<in>set (transitions w). incident wfid (ws_id s) t \<longrightarrow>
                  t \<notin> set (transitions (snd (delete_handler js i w))))) \<and>
            statuses (snd (delete_handler js i w))
              = filter (\<lambda>x. ws_id x \<notin> ws_id ` {s \<in> set (statuses w). matches js wfid (cc_name c) s})
                  (statuses w) \<and>
            transitions (snd (delete_handler js i w))
              = filter (\<lambda>t. wt_id t \<notin> wt_id ` {x \<in> set (transitions w).
                          \<exists>s\<in>set (statuses w). matches js wfid (cc_name c) s \<and>
                                                incident wfid (ws_id s) x})
                  (transitions w)) \<and>
         ((\<forall>n. fault w n (OpDelete Columns i) = None) \<longrightarrow>
            fst (delete_handler js i w) = Inr i \<and>
            \<not> list_ex (\<lambda>c. cc_id c = i) (columns (snd (delete_handler js i w))))"
proof (intro conjI impI)
  assume a: "fault w = no_faults \<and> projects w p = Some proj \<and> p_workflowId proj = Some wfid \<and>
          wfid \<noteq> []"
  have st: "statuses (snd (delete_handler js i w))
              = filter (\<lambda>x. ws_id x \<notin> ws_id ` {s \<in> set (statuses w). matches js wfid (cc_name c) s})
                  (statuses w)"
    and tr: "transitions (snd (delete_handler js i w))
              = filter (\<lambda>t. wt_id t \<notin> wt_id ` {x \<in> set (transitions w).
                          \<exists>s\<in>set (statuses w). matches js wfid (cc_name c) s \<and>
                                                incident wfid (ws_id s) x})
                  (transitions w)"
    using delete_handler_ok(2,3) [where w = w and i = i and c = c and p = p and proj = proj
            and wfid = wfid and js = js] assms a
    by simp_all
  show "statuses (snd (delete_handler js i w))
              = filter (\<lambda>x. ws_id x \<notin> ws_id ` {s \<in> set (statuses w). matches js wfid (cc_name c) s})
                  (statuses w)" by (rule st)
  show "transitions (snd (delete_handler js i w))
              = filter (\<lambda>t. wt_id t \<notin> wt_id ` {x \<in> set (transitions w).
                          \<exists>s\<in>set (statuses w). matches js wfid (cc_name c) s \<and>
                                                incident wfid (ws_id s) x})
                  (transitions w)" by (rule tr)
  show "\<forall>s\<in>set (statuses w). matches js wfid (cc_name c) s \<longrightarrow>
               s \<notin> set (statuses (snd (delete_handler js i w))) \<and>
               (\<forall>t\<in>set (transitions w). incident wfid (ws_id s) t \<longrightarrow>
                  t \<notin> set (transitions (snd (delete_handler js i w))))"
    unfolding st tr by auto
next
  assume f: "\<forall>n. fault w n (OpDelete Columns i) = None"
  have "list_ex (\<lambda>c. cc_id c = i) (columns w)"
    using assms(1) by (auto simp: list_ex_iff find_Some_iff)
  then show "fst (delete_handler js i w) = Inr i"
    using f by (simp add: delete_handler_fst)
  show "\<not> list_ex (\<lambda>c. cc_id c = i) (columns (snd (delete_handler js i w)))"
    using delete_handler_removes_column [OF f] .
qed

theorem delete_cascades_witness:
  "find (\<lambda>c. cc_id c = ''c1'') (columns ex_world_synced) = Some ex_column \<and>
   fst (delete_handler ascii_js ''c1'' ex_world_synced) = Inr ''c1'' \<and>
   statuses (snd (delete_handler ascii_js ''c1'' ex_world_synced)) = [ex_todo, ex_done] \<and>
   transitions (snd (delete_handler ascii_js ''c1'' ex_world_synced))
     = [ex_transition ''t1'' ''s1'' ''s2''] \<and>
   \<not> list_ex (\<lambda>c. cc_id c = ''c1'')
        (columns (snd (delete_handler ascii_js ''c1'' ex_world_synced))) \<and>
   ws_name ex_review_old = ascii ''Review (old)'' \<and> ws_key ex_review_old = ascii ''IN_REVIEW'' \<and>
   statuses ex_world_double = [ex_review, ex_review_old] \<and>
   statuses (snd (delete_handler ascii_js ''c1'' ex_world_double)) = [] \<and>
   transitions (snd (delete_handler ascii_js ''c1'' ex_world_double)) = []"
proof -
  have c: "find (\<lambda>c. cc_id c = ''c1'') (columns ex_world_synced) = Some ex_column"
    "find (\<lambda>c. cc_id c = ''c1'') (columns ex_world_double) = Some ex_column"
    "cc_name ex_column = ascii ''In Review''" "cc_projectId ex_column = Some ''p1''"
    by simp_all
  have old: "ws_name ex_review_old = ascii ''Review (old)''"
    "ws_key ex_review_old = ascii ''IN_REVIEW''"
    by (simp_all add: ex_review_old_def ex_review_def)
  note synced = delete_cascades [where i = "''c1''" and w = ex_world_synced and c = ex_column
                 and p = "''p1''" and proj = "\<lparr>p_workflowId = Some ''wf1''\<rparr>"
                 and wfid = "''wf1''" and js = ascii_js, OF c(1) _ c(4),
                 unfolded comprehension_as_filter]
  note double = delete_cascades [where i = "''c1''" and w = ex_world_double and c = ex_column
                 and p = "''p1''" and proj = "\<lparr>p_workflowId = Some ''wf1''\<rparr>"
                 and wfid = "''wf1''" and js = ascii_js, OF c(2) _ c(4),
                 unfolded comprehension_as_filter]
  have "statuses (snd (delete_handler ascii_js ''c1'' ex_world_double)) = [] \<and>
        transitions (snd (delete_handler ascii_js ''c1'' ex_world_double)) = []"
    using double c by simp
  moreover have "fst (delete_handler ascii_js ''c1'' ex_world_synced) = Inr ''c1'' \<and>
   statuses (snd (delete_handler ascii_js ''c1'' ex_world_synced)) = [ex_todo, ex_done] \<and>
   transitions (snd (delete_handler ascii_js ''c1'' ex_world_synced))
     = [ex_transition ''t1'' ''s1'' ''s2''] \<and>
   \<not> list_ex (\<lambda>c. cc_id c = ''c1'')
        (columns (snd (delete_handler ascii_js ''c1'' ex_world_synced)))"
    using synced c by simp
  ultimately show ?thesis using c old by simp
qed

text \<open>
  Claim C3. Whatever the store fails or lacks outside the column collection (the project
  lookup, the status queries, the status creation, the cascade), a create request whose
  column calls are not failed answers with the created column, which is in the store, and a
  delete request for an existing column whose deletion call is not failed answers with the
  column id, and the column is gone.
\<close>

theorem sync_failures_suppressed:
  "((\<forall>n op. op_collection op = Columns \<longrightarrow> fault w n op = None) \<longrightarrow>
      (\<exists>pos. fst (post_handler js rq cid sid w) = Inr (documentData rq cid pos) \<and>
             documentData rq cid pos \<in> set (columns (snd (post_handler js rq cid sid w))))) \<and>
   ((\<forall>n. fault w n (OpDelete Columns i) = None) \<and> list_ex (\<lambda>c. cc_id c = i) (columns w) \<longrightarrow>
      fst (delete_handler js i w) = Inr i \<and>
      \<not> list_ex (\<lambda>c. cc_id c = i) (columns (snd (delete_handler js i w))))"
proof (intro conjI impI)
  assume "\<forall>n op. op_collection op = Columns \<longrightarrow> fault w n op = None"
  from post_handler_success [OF this]
  show "\<exists>pos. fst (post_handler js rq cid sid w) = Inr (documentData rq cid pos) \<and>
             documentData rq cid pos \<in> set (columns (snd (post_handler js rq cid sid w)))" .
next
  assume a: "(\<forall>n. fault w n (OpDelete Columns i) = None) \<and> list_ex (\<lambda>c. cc_id c = i) (columns w)"
  then show "fst (delete_handler js i w) = Inr i"
    by (simp add: delete_handler_fst)
  show "\<not> list_ex (\<lambda>c. cc_id c = i) (columns (snd (delete_handler js i w)))"
    using delete_handler_removes_column a by blast
qed

theorem sync_failures_suppressed_witness:
  "(\<exists>pos. fst (post_handler ascii_js ex_request ''c2'' ''s4'' ex_world_failing)
            = Inr (documentData ex_request ''c2'' pos) \<and>
          documentData ex_request ''c2'' pos
            \<in> set (columns (snd (post_handler ascii_js ex_request ''c2'' ''s4'' ex_world_failing)))) \<and>
   errlog (snd (post_handler ascii_js ex_request ''c2'' ''s4'' ex_world_failing)) = [Unavailable] \<and>
   fst (delete_handler ascii_js ''c1'' ex_world_failing) = Inr ''c1'' \<and>
   \<not> list_ex (\<lambda>c. cc_id c = ''c1'')
        (columns (snd (delete_handler ascii_js ''c1'' ex_world_failing))) \<and>
   errlog (snd (delete_handler ascii_js ''c1'' ex_world_failing)) = [Unavailable]"
proof -
  have e1: "errlog (snd (post_handler ascii_js ex_request ''c2'' ''s4'' ex_world_failing))
              = [Unavailable]"
    by code_simp
  have e2: "errlog (snd (delete_handler ascii_js ''c1'' ex_world_failing)) = [Unavailable]"
    by code_simp
  show ?thesis
    using sync_failures_suppressed [where w = ex_world_failing and rq = ex_request
             and cid = "''c2''" and sid = "''s4''" and i = "''c1''" and js = ascii_js] e1 e2
    by (simp add: sync_unavailable_def)
qed

text \<open>
  Claim C4. A column is created for a project whose workflow already holds a status with the
  column's name or with its normalized key: the statuses (and the transitions) of the store
  are left as they were, whatever the store fails.
\<close>

theorem create_idempotent_on_match:
  assumes "rq_projectId rq = Some p"
    and "projects w p = Some proj" and "p_workflowId proj = Some wfid"
    and "\<exists>s\<in>set (statuses w). matches js wfid (rq_name rq) s"
  shows "statuses (snd (post_handler js rq cid sid w)) = statuses w \<and>
         transitions (snd (post_handler js rq cid sid w)) = transitions w"
proof -
  let ?w2 = "column_write rq cid w"
  have "statuses (snd (sync_create js rq p sid ?w2)) = statuses ?w2"
    using sync_create_statuses [of js rq p sid ?w2] assms(2-4) by auto
  moreover have "transitions (snd (sync_create js rq p sid ?w2)) = transitions ?w2"
    using sync_create_frame by blast
  ultimately show ?thesis
    using post_handler_snd [of js rq cid sid w] assms(1)
    by (elim disjE exE conjE) simp_all
qed

theorem create_idempotent_on_match_witness:
  "rq_projectId ex_rename = Some ''p1'' \<and>
   matches ascii_js ''wf1'' (rq_name ex_rename) ex_review \<and>
   statuses (snd (post_handler ascii_js ex_rename ''c2'' ''s4'' ex_world_synced))
     = [ex_todo, ex_done, ex_review] \<and>
   transitions (snd (post_handler ascii_js ex_rename ''c2'' ''s4'' ex_world_synced))
     = transitions ex_world_synced"
  using create_idempotent_on_match [where rq = ex_rename and p = "''p1''" and w = ex_world_synced
           and proj = "\<lparr>p_workflowId = Some ''wf1''\<rparr>" and wfid = "''wf1''" and js = ascii_js
           and cid = "''c2''" and sid = "''s4''"]
  by simp

text \<open>
  Claim C5. The claim asks that every transition at a matched status is deleted before the
  status is. The source says so too (\<^verbatim>\<open>First, delete all transitions to/from this status\<close>),
  and its inner \<^verbatim>\<open>catch\<close> is there for a transition that \<^verbatim>\<open>may have already been deleted\<close>;
  but that \<^verbatim>\<open>catch\<close> takes every error. In \<open>ex_world_unavailable\<close> every deletion of a
  transition fails with an error that is not a not-found: the request answers with the
  column id, the status In Review is deleted, its two transitions stay in the store, and
  nothing is logged. In \<open>cx_world\<close> two statuses match and a transition joins them; its first
  deletion fails, the first status is deleted, and the transition is deleted after it, in the
  round of the second status.
\<close>

theorem cascade_swallows_failed_deletion:
  "fst (delete_handler ascii_js ''c1'' ex_world_unavailable) = Inr ''c1'' \<and>
   new_calls ex_world_unavailable (snd (delete_handler ascii_js ''c1'' ex_world_unavailable)) =
     [OpGet Columns ''c1'', OpDelete Columns ''c1'', OpGet Projects ''p1'', OpList Statuses,
      OpList Transitions, OpDelete Transitions ''t2'', OpDelete Transitions ''t3'',
      OpDelete Statuses ''s3''] \<and>
   statuses (snd (delete_handler ascii_js ''c1'' ex_world_unavailable)) = [ex_todo, ex_done] \<and>
   transitions (snd (delete_handler ascii_js ''c1'' ex_world_unavailable)) =
     [ex_transition ''t1'' ''s1'' ''s2'', ex_transition ''t2'' ''s1'' ''s3'',
      ex_transition ''t3'' ''s3'' ''s2''] \<and>
   errlog (snd (delete_handler ascii_js ''c1'' ex_world_unavailable)) = [] \<and>
   fault cx_world 5 (OpDelete Transitions ''t4'') = Some Unavailable \<and>
   new_calls cx_world (snd (delete_handler ascii_js ''c1'' cx_world)) =
     [OpGet Columns ''c1'', OpDelete Columns ''c1'', OpGet Projects ''p1'', OpList Statuses,
      OpList Transitions, OpDelete Transitions ''t4'', OpDelete Statuses ''s3'',
      OpList Transitions, OpDelete Transitions ''t4'', OpDelete Statuses ''s4''] \<and>
   incident ''wf1'' ''s3'' (ex_transition ''t4'' ''s3'' ''s4'')"
  by code_simp

text \<open>
  Claim C6, as amended. A create request gives no position; the positions of the columns of
  the request's scope, and the largest of them plus \<open>1000\<close> (\<open>1000\<close> when the scope holds no
  column), are numbers that JavaScript holds exactly. Whenever the request answers with a column, that
  column is in the store and its position is that number; and it does answer with a column
  when no call on the column collection is failed.
\<close>

theorem default_column_position:
  assumes "rq_position rq = None"
    and "\<forall>c\<in>set (columns w). in_scope rq c \<longrightarrow> representable (cc_position c)"
    and "representable (next_position 1000 1000
                          (cc_position ` {c \<in> set (columns w). in_scope rq c}))"
  shows "(\<forall>col. fst (post_handler js rq cid sid w) = Inr col \<longrightarrow>
            cc_position col = next_position 1000 1000
                                (cc_position ` {c \<in> set (columns w). in_scope rq c}) \<and>
            col \<in> set (columns (snd (post_handler js rq cid sid w)))) \<and>
         ((\<forall>n op. op_collection op = Columns \<longrightarrow> fault w n op = None) \<longrightarrow>
            (\<exists>col. fst (post_handler js rq cid sid w) = Inr col))"
proof (intro conjI allI impI)
  have exact: "js_next 1000 1000 (cc_position ` {c \<in> set (columns w). in_scope rq c})
                 = next_position 1000 1000 (cc_position ` {c \<in> set (columns w). in_scope rq c})"
    using assms(2,3) by (intro js_next_exact) (auto simp: safe_representable)
  fix col assume "fst (post_handler js rq cid sid w) = Inr col"
  from post_handler_position [OF assms(1) this] exact
  show "cc_position col = next_position 1000 1000
                                (cc_position ` {c \<in> set (columns w). in_scope rq c})"
    and "col \<in> set (columns (snd (post_handler js rq cid sid w)))"
    by simp_all
next
  assume "\<forall>n op. op_collection op = Columns \<longrightarrow> fault w n op = None"
  from post_handler_success [OF this]
  show "\<exists>col. fst (post_handler js rq cid sid w) = Inr col" by blast
qed

theorem default_column_position_witness:
  "rq_position ex_request = None \<and>
   representable 2000 \<and>
   (\<exists>col. fst (post_handler ascii_js ex_request ''c2'' ''s4'' ex_world_synced) = Inr col \<and>
          cc_position col = 2000 \<and>
          col \<in> set (columns (snd (post_handler ascii_js ex_request ''c2'' ''s4'' ex_world_synced))))"
proof -
  have p: "next_position 1000 1000
             (cc_position ` {c \<in> set (columns ex_world_synced). in_scope ex_request c}) = 2000"
    unfolding comprehension_as_filter by (simp add: in_scope_def next_position_def)
  have r: "representable 2000" by (simp add: safe_representable)
  have held: "\<forall>c\<in>set (columns ex_world_synced).
                 in_scope ex_request c \<longrightarrow> representable (cc_position c)"
    by (simp add: safe_representable)
  note inst = default_column_position [where rq = ex_request and cid = "''c2''" and sid = "''s4''"
                 and w = ex_world_synced and js = ascii_js, unfolded p, OF _ held r]
  have "\<exists>col. fst (post_handler ascii_js ex_request ''c2'' ''s4'' ex_world_synced) = Inr col"
    using inst by simp
  then obtain col
    where col: "fst (post_handler ascii_js ex_request ''c2'' ''s4'' ex_world_synced) = Inr col"
    by blast
  then have "cc_position col = 2000 \<and>
          col \<in> set (columns (snd (post_handler ascii_js ex_request ''c2'' ''s4'' ex_world_synced)))"
    using inst by simp
  then show ?thesis using col r by auto
qed

text \<open>
  As first stated, claim C6 has no proviso on the numbers. In \<open>ex_world_far\<close> the only column
  of the scope is at position \<open>2 ^ 56\<close>, where JavaScript numbers are \<open>16\<close> apart: the column
  that the request stores is at \<open>2 ^ 56 + 992\<close>, not at \<open>2 ^ 56 + 1000\<close>.
\<close>

theorem default_column_position_counterexample:
  "rq_position ex_request = None \<and>
   map cc_position (filter (in_scope ex_request) (columns ex_world_far)) = [72057594037927936] \<and>
   map cc_position (columns (snd (post_handler ascii_js ex_request ''c2'' ''s4'' ex_world_far)))
     = [72057594037927936, 72057594037928928] \<and>
   72057594037927936 + 1000 \<noteq> (72057594037928928 :: int)"
  by code_simp

text \<open>
  Claim C7. When the only store calls that fail are deletions of transitions and of statuses
  inside the cascade (with a not-found error or any other), the cascade goes on: a deletion
  call is issued for every matching status and for every transition at such a status, the
  request answers with the column id, and nothing reaches the error log. A column that is
  absent makes the request fail with the not-found error of the column's own deletion.
\<close>

theorem cascade_tolerates_errors:
  assumes "find (\<lambda>c. cc_id c = i) (columns w) = Some c" and "cc_name c \<noteq> []"
    and "cc_projectId c = Some p" and "p \<noteq> []"
    and "projects w p = Some proj" and "p_workflowId proj = Some wfid" and "wfid \<noteq> []"
    and "\<forall>n op. (\<forall>x. op \<noteq> OpDelete Transitions x \<and> op \<noteq> OpDelete Statuses x) \<longrightarrow>
                  fault w n op = None"
  shows "fst (delete_handler js i w) = Inr i \<and>
         errlog (snd (delete_handler js i w)) = errlog w \<and>
         (\<forall>s\<in>set (statuses w). matches js wfid (cc_name c) s \<longrightarrow>
            OpDelete Statuses (ws_id s) \<in> set (new_calls w (snd (delete_handler js i w))) \<and>
            (\<forall>t\<in>set (transitions w). incident wfid (ws_id s) t \<longrightarrow>
               OpDelete Transitions (wt_id t) \<in> set (new_calls w (snd (delete_handler js i w))))) \<and>
         (\<not> list_ex (\<lambda>c. cc_id c = j) (columns v) \<and> (\<forall>n. fault v n (OpDelete Columns j) = None) \<longrightarrow>
            fst (delete_handler js j v) = Inl NotFound)"
proof (intro conjI ballI impI)
  let ?w4 = "cascade_start p (column_removal i w)"
  let ?ms = "filter (matches js wfid (cc_name c)) (statuses w)"
  let ?w' = "snd (delete_handler js i w)"
  let ?l = "delete_statuses wfid ?ms ?w4"
  have w': "?w' = catch_and_log ?l" and r: "fst (delete_handler js i w) = Inr i"
    using delete_handler_cascade [OF assms] by simp_all
  show "fst (delete_handler js i w) = Inr i" by (rule r)
  have f4: "\<forall>n. fault ?w4 n (OpList Transitions) = None"
    using assms(8) by simp
  have fin: "fst ?l = Inr ()"
    and every: "\<forall>s\<in>set ?ms. OpDelete Statuses (ws_id s) \<in> set (new_calls ?w4 (snd ?l))"
    using cascade_completes [OF f4] by simp_all
  have w'': "?w' = snd ?l" unfolding w' using fin by (rule catch_and_log_ok)
  have "errlog (snd ?l) = errlog ?w4" using delete_statuses_frame by blast
  then show "errlog ?w' = errlog w" unfolding w'' by simp
  obtain ops where ops: "trace (snd ?l) = trace ?w4 @ ops"
    using delete_statuses_trace by blast
  have n4: "new_calls ?w4 (snd ?l) = ops" using ops by (rule new_calls_append)
  have n: "new_calls w ?w'
             = [OpGet Columns i, OpDelete Columns i, OpGet Projects p, OpList Statuses] @ ops"
    unfolding w'' using ops by (intro new_calls_append) simp
  fix s assume s: "s \<in> set (statuses w)" "matches js wfid (cc_name c) s"
  then have "OpDelete Statuses (ws_id s) \<in> set ops" using every n4 by simp
  then show del: "OpDelete Statuses (ws_id s) \<in> set (new_calls w ?w')" unfolding n by simp
  fix t assume t: "t \<in> set (transitions w)" "incident wfid (ws_id s) t"
  obtain xs ys where split: "new_calls w ?w' = xs @ OpDelete Statuses (ws_id s) # ys"
    using del by (auto simp: in_set_conv_decomp)
  have "OpDelete Transitions (wt_id t) \<in> set xs"
    using handler_transitions_first(1) [OF assms(1) assms(3) assms(5) assms(6) split t] .
  then show "OpDelete Transitions (wt_id t) \<in> set (new_calls w ?w')" unfolding split by simp
next
  assume "\<not> list_ex (\<lambda>c. cc_id c = j) (columns v) \<and> (\<forall>n. fault v n (OpDelete Columns j) = None)"
  then show "fst (delete_handler js j v) = Inl NotFound"
    by (simp add: delete_handler_fst)
qed

theorem cascade_tolerates_errors_witness:
  "fst (delete_handler ascii_js ''c1'' ex_world_racing) = Inr ''c1'' \<and>
   errlog (snd (delete_handler ascii_js ''c1'' ex_world_racing)) = [] \<and>
   OpDelete Statuses ''s3''
     \<in> set (new_calls ex_world_racing (snd (delete_handler ascii_js ''c1'' ex_world_racing))) \<and>
   OpDelete Transitions ''t3''
     \<in> set (new_calls ex_world_racing (snd (delete_handler ascii_js ''c1'' ex_world_racing))) \<and>
   statuses (snd (delete_handler ascii_js ''c1'' ex_world_racing))
     = [ex_todo, ex_done, ex_review] \<and>
   fst (delete_handler ascii_js ''c9'' ex_world_synced) = Inl NotFound"
proof -
  have kept: "statuses (snd (delete_handler ascii_js ''c1'' ex_world_racing))
                = [ex_todo, ex_done, ex_review]"
    by code_simp
  show ?thesis
    using cascade_tolerates_errors [where i = "''c1''" and w = ex_world_racing and c = ex_column
             and p = "''p1''" and proj = "\<lparr>p_workflowId = Some ''wf1''\<rparr>" and wfid = "''wf1''"
             and j = "''c9''" and v = ex_world_synced and js = ascii_js] kept
    by (simp add: not_found_only_in_cascade)
qed



text \<open>
  Claim C9. A create request with both \<open>projectId\<close> and \<open>workflowId\<close> set calls the column
  collection only and leaves statuses and transitions alone. A delete request for a column
  with both set does run the cascade: when no store call fails, every status of the
  project's workflow that matches the column's name is gone afterwards.
\<close>

theorem guard_asymmetry:
  "(truthy (rq_projectId rq) \<and> truthy (rq_workflowId rq) \<longrightarrow>
      statuses (snd (post_handler js rq cid sid w)) = statuses w \<and>
      transitions (snd (post_handler js rq cid sid w)) = transitions w \<and>
      (\<forall>op\<in>set (new_calls w (snd (post_handler js rq cid sid w))). op_collection op = Columns)) \<and>
   (fault v = no_faults \<and> find (\<lambda>c. cc_id c = i) (columns v) = Some c \<and> cc_name c \<noteq> [] \<and>
    cc_projectId c = Some p \<and> p \<noteq> [] \<and> truthy (cc_workflowId c) \<and>
    projects v p = Some proj \<and> p_workflowId proj = Some wfid \<and> wfid \<noteq> [] \<longrightarrow>
      (\<forall>s\<in>set (statuses v). matches js wfid (cc_name c) s \<longrightarrow>
         s \<notin> set (statuses (snd (delete_handler js i v)))))"
proof (intro conjI impI)
  assume a: "truthy (rq_projectId rq) \<and> truthy (rq_workflowId rq)"
  then have w': "snd (post_handler js rq cid sid w) = column_write rq cid w"
    by (intro post_handler_snd_nosync) simp
  show "statuses (snd (post_handler js rq cid sid w)) = statuses w"
    and "transitions (snd (post_handler js rq cid sid w)) = transitions w"
    unfolding w' by simp_all
  obtain ops where ops: "trace (column_write rq cid w) = trace w @ ops"
      "\<forall>op\<in>set ops. op_collection op = Columns"
    using column_write_trace by blast
  have "new_calls w (column_write rq cid w) = ops" using ops(1) by (rule new_calls_append)
  then show "\<forall>op\<in>set (new_calls w (snd (post_handler js rq cid sid w))). op_collection op = Columns"
    unfolding w' using ops(2) by simp
next
  assume a: "fault v = no_faults \<and> find (\<lambda>c. cc_id c = i) (columns v) = Some c \<and> cc_name c \<noteq> [] \<and>
    cc_projectId c = Some p \<and> p \<noteq> [] \<and> truthy (cc_workflowId c) \<and>
    projects v p = Some proj \<and> p_workflowId proj = Some wfid \<and> wfid \<noteq> []"
  have st: "statuses (snd (delete_handler js i v))
              = filter (\<lambda>x. ws_id x \<notin> ws_id ` {s \<in> set (statuses v). matches js wfid (cc_name c) s})
                  (statuses v)"
    using delete_handler_ok(2) [where w = v and i = i and c = c and p = p and proj = proj
            and wfid = wfid and js = js] a
    by simp
  show "\<forall>s\<in>set (statuses v). matches js wfid (cc_name c) s \<longrightarrow>
         s \<notin> set (statuses (snd (delete_handler js i v)))"
    unfolding st by auto
qed

theorem guard_asymmetry_witness:
  "statuses (snd (post_handler ascii_js ex_both_request ''c1'' ''s9'' ex_world))
     = [ex_todo, ex_done] \<and>
   columns (snd (post_handler ascii_js ex_both_request ''c1'' ''s9'' ex_world))
     = columns ex_world_both \<and>
   new_calls ex_world (snd (post_handler ascii_js ex_both_request ''c1'' ''s9'' ex_world))
     = [OpList Columns, OpCreate Columns ''c1''] \<and>
   ex_done \<in> set (statuses ex_world_both) \<and>
   ex_done \<notin> set (statuses (snd (delete_handler ascii_js ''c1'' ex_world_both)))"
proof -
  have cols: "columns (snd (post_handler ascii_js ex_both_request ''c1'' ''s9'' ex_world))
                = columns ex_world_both"
    by code_simp
  have calls: "new_calls ex_world (snd (post_handler ascii_js ex_both_request ''c1'' ''s9'' ex_world))
     = [OpList Columns, OpCreate Columns ''c1'']"
    by code_simp
  show ?thesis
    using guard_asymmetry [where rq = ex_both_request and cid = "''c1''" and sid = "''s9''"
             and w = ex_world and v = ex_world_both and i = "''c1''" and c = ex_column_both
             and p = "''p1''" and proj = "\<lparr>p_workflowId = Some ''wf1''\<rparr>" and wfid = "''wf1''"
             and js = ascii_js]
          cols calls
    by simp
qed

text \<open>
  Claim C10. A PATCH request issues one store call, the update of the column; statuses,
  transitions and projects are what they were. So a status that matched the column's old
  name keeps that name.
\<close>

theorem patch_touches_only_column:
  "statuses (snd (patch_handler i u w)) = statuses w \<and>
   transitions (snd (patch_handler i u w)) = transitions w \<and>
   projects (snd (patch_handler i u w)) = projects w \<and>
   new_calls w (snd (patch_handler i u w)) = [OpUpdate Columns i]"
  using patch_frame [of i u w] by (simp add: new_calls_def)

theorem patch_touches_only_column_witness:
  "statuses (snd (patch_handler ''c1'' ex_patch ex_world_synced)) = [ex_todo, ex_done, ex_review] \<and>
   map cc_name (columns (snd (patch_handler ''c1'' ex_patch ex_world_synced))) = [ascii ''QA''] \<and>
   new_calls ex_world_synced (snd (patch_handler ''c1'' ex_patch ex_world_synced))
     = [OpUpdate Columns ''c1'']"
proof -
  have renamed: "map cc_name (columns (snd (patch_handler ''c1'' ex_patch ex_world_synced)))
                   = [ascii ''QA'']"
    by code_simp
  show ?thesis
    using patch_touches_only_column [of "''c1''" ex_patch ex_world_synced] renamed
    by simp
qed

end
